theory Spec2Isabelle
  imports Main "HOL-Library.Word"
begin

unbundle bit_operations_syntax

section \<open>The record metadata word\<close>

text \<open>
  Every row of a table carries a \<^verbatim>\<open>std::atomic<uint64_t>\<close>. The protocol code of
  \<^verbatim>\<open>protocol/Scar/Scar.h\<close> reads and writes it only through \<^verbatim>\<open>ScarHelper\<close>, whose
  header is not among the sources, so the helper is written down from the specification
  (sections 3 and 4.1). One worker is modelled: a load followed by a compare-and-swap of the
  same thread always succeeds, and an atomic is passed in as its current value and handed
  back as its new value.
\<close>

type_synonym u64 = "64 word"

text \<open>Modelled from the spec: \<^verbatim>\<open>ScarHelper::get_wts\<close> (ScarHelper.h is missing); bits 62..32 of
  the word hold the write timestamp.\<close>

definition get_wts :: "u64 \<Rightarrow> u64" where
  "get_wts t = take_bit 31 (drop_bit 32 t)"

text \<open>Modelled from the spec: the field \<^verbatim>\<open>rts - wts\<close> of the word (ScarHelper.h is missing);
  bits 31..5.\<close>

definition get_delta :: "u64 \<Rightarrow> u64" where
  "get_delta t = take_bit 27 (drop_bit 5 t)"

text \<open>Modelled from the spec: \<^verbatim>\<open>ScarHelper::get_rts\<close> (ScarHelper.h is missing);
  \<^verbatim>\<open>get_rts(tid) = wts + delta\<close>.\<close>

definition get_rts :: "u64 \<Rightarrow> u64" where
  "get_rts t = get_wts t + get_delta t"

text \<open>Modelled from the spec: \<^verbatim>\<open>ScarHelper::is_locked\<close> (ScarHelper.h is missing); bit 63 is
  the lock bit.\<close>

definition is_locked :: "u64 \<Rightarrow> bool" where
  "is_locked t = bit t 63"

text \<open>Modelled from the spec: writing the delta field of a word, the other bits kept
  (ScarHelper.h is missing); used by the extension of the read timestamp.\<close>

definition set_delta :: "u64 \<Rightarrow> u64 \<Rightarrow> u64" where
  "set_delta t d = (t AND NOT (push_bit 5 (mask 27))) OR push_bit 5 (take_bit 27 d)"

text \<open>Modelled from the spec: \<^verbatim>\<open>ScarHelper::lock(tid, success)\<close> (ScarHelper.h is missing):
  read the current value; if the lock bit is set, fail without spinning; else set the lock
  bit and keep the timestamps. The result is the value read, the success flag and the new
  content of the atomic.\<close>

definition lock :: "u64 \<Rightarrow> u64 \<times> bool \<times> u64" where
  "lock a = (if is_locked a then (a, False, a) else (a, True, set_bit 63 a))"

text \<open>Modelled from the spec: \<^verbatim>\<open>ScarHelper::lock(tid)\<close>, the overload without a success flag
  (ScarHelper.h is missing): it spins until it holds the lock. With no other thread to
  release the record, a locked record is never acquired: \<open>None\<close>.\<close>

definition lock_spin :: "u64 \<Rightarrow> (u64 \<times> u64) option" where
  "lock_spin a = (if is_locked a then None else Some (a, set_bit 63 a))"

text \<open>Modelled from the spec: \<^verbatim>\<open>ScarHelper::unlock(tid)\<close> (ScarHelper.h is missing): store the
  old value with the lock bit cleared.\<close>

definition unlock :: "u64 \<Rightarrow> u64" where
  "unlock a = unset_bit 63 a"

text \<open>Modelled from the spec: \<^verbatim>\<open>ScarHelper::unlock(tid, commit_wts)\<close> (ScarHelper.h is
  missing): the new word has \<^verbatim>\<open>wts = commit_wts\<close>, \<^verbatim>\<open>rts = commit_wts\<close> and the lock bit
  clear.\<close>

definition unlock_with_commit :: "u64 \<Rightarrow> u64 \<Rightarrow> u64" where
  "unlock_with_commit a commit_wts = push_bit 32 (take_bit 31 commit_wts)"

text \<open>Modelled from the spec: \<^verbatim>\<open>ScarHelper::validate_read_key(latest_tid, tid, commit_ts,
  written_ts)\<close> (ScarHelper.h is missing), sections 3, 4.1 and 8.3: (1) fail when the write
  timestamps differ; (2) succeed with \<^verbatim>\<open>written = latest\<close> when \<^verbatim>\<open>commit_ts \<le> rts(latest)\<close>;
  (3) else fail when the record is locked, and otherwise extend the read timestamp up to
  \<^verbatim>\<open>commit_ts\<close>, the delta clamped to its 27 bits. The call succeeds when the read timestamp
  of the extended word has reached \<^verbatim>\<open>commit_ts\<close>, as sections 3 and 8.3 ask of a success
  (\<^verbatim>\<open>commit_ts \<le> rts(latest)\<close> after the extension), and fails when the clamped delta leaves
  it below. The result is the verdict, the value of the out-parameter \<^verbatim>\<open>written_ts\<close>
  (unchanged on failure) and the new content of the atomic.\<close>

definition validate_read_key :: "u64 \<Rightarrow> u64 \<Rightarrow> u64 \<Rightarrow> u64 \<Rightarrow> bool \<times> u64 \<times> u64" where
  "validate_read_key latest tid commit_ts written =
     (if get_wts latest \<noteq> get_wts tid then (False, written, latest)
      else if commit_ts \<le> get_rts latest then (True, latest, latest)
      else if is_locked latest then (False, written, latest)
      else (let new = set_delta latest (min (commit_ts - get_wts latest) (mask 27))
            in if commit_ts \<le> get_rts new then (True, new, new) else (False, written, new)))"

section \<open>Read/write keys, transactions, messages, partitioner\<close>

text \<open>Modelled from the spec: the class \<^verbatim>\<open>ScarRWKey\<close> (ScarRWKey.h is missing; the same fields
  serve \<^verbatim>\<open>AriaRWKey\<close>, AriaRWKey.h is missing too), section 3: table id, partition id, key
  pointer, value pointer, captured tid and one boolean per bit flag. A key pointer is a
  natural number, its address; the code compares keys by address (\<^verbatim>\<open>writeKey.get_key() ==
  key\<close>), and a row of a table is named by table id, partition id and that key.\<close>

record RWKey =
  table_id :: nat
  partition_id :: nat
  key :: nat
  val :: nat
  tid :: u64
  read_request_bit :: bool
  local_index_read_bit :: bool
  write_lock_bit :: bool
  execution_processed_bit :: bool
  read_validation_success_bit :: bool
  wts_change_in_read_validation_bit :: bool

type_synonym row = "nat \<times> nat \<times> nat"

definition row_of :: "RWKey \<Rightarrow> row" where
  "row_of k = (table_id k, partition_id k, key k)"

text \<open>Modelled from the spec: the class \<^verbatim>\<open>ScarTransaction\<close> (ScarTransaction.h is missing),
  section 3, with the fields \<^verbatim>\<open>Scar.h\<close> and the executors read and write. The hooks
  \<^verbatim>\<open>message_flusher\<close> and \<^verbatim>\<open>remote_request_handler\<close> are arguments of the functions that
  call them.\<close>

record ScarTransaction =
  coordinator_id :: nat
  readSet :: "RWKey list"
  writeSet :: "RWKey list"
  pendingResponses :: nat
  network_size :: nat
  abort_lock :: bool
  abort_no_retry :: bool
  abort_read_validation :: bool
  commit_rts :: u64
  commit_wts :: u64

text \<open>Modelled from the spec: \<^verbatim>\<open>ScarTransaction::get_read_key\<close> (ScarTransaction.h is
  missing): the first read-set entry with this key pointer, or the null pointer.\<close>

definition get_read_key :: "RWKey list \<Rightarrow> nat \<Rightarrow> RWKey option" where
  "get_read_key rs k = find (\<lambda>rk. key rk = k) rs"

text \<open>Modelled from the spec: the message pieces \<^verbatim>\<open>ScarMessageFactory\<close> appends to an outbound
  message (ScarMessage.h is missing), one constructor per \<^verbatim>\<open>new_*_message\<close> call of
  \<^verbatim>\<open>Scar.h\<close>, carrying the arguments of the call (the table as table id and partition id).\<close>

datatype piece =
    LOCK_REQ nat nat nat nat
  | READ_VALIDATION_REQ nat nat nat nat u64 u64
  | ABORT_REQ nat nat nat
  | WRITE_REQ nat nat nat nat
  | REPLICATE_REQ nat nat nat nat u64
  | RELEASE_LOCK_REQ nat nat nat u64

text \<open>Modelled from the spec: the class \<^verbatim>\<open>Partitioner\<close> (core/Partitioner.h is missing),
  section 4.2, as the functions the protocol calls; \<open>self_id\<close> is the coordinator the
  partitioner and the executor were built for. \<open>piece_size\<close> is the number of bytes a
  \<^verbatim>\<open>new_*_message\<close> call returns (ScarMessage.h is missing).\<close>

record partitioner =
  self_id :: nat
  master_coordinator :: "nat \<Rightarrow> nat"
  is_partition_replicated_on :: "nat \<Rightarrow> nat \<Rightarrow> bool"
  total_coordinators :: nat
  piece_size :: "piece \<Rightarrow> nat"

text \<open>Modelled from the spec: \<^verbatim>\<open>Partitioner::has_master_partition\<close> (core/Partitioner.h is
  missing): \<^verbatim>\<open>has_master_partition(p) = (master_coordinator(p) == self)\<close>.\<close>

definition has_master_partition :: "partitioner \<Rightarrow> nat \<Rightarrow> bool" where
  "has_master_partition P p = (master_coordinator P p = self_id P)"

text \<open>
  What a worker's protocol code reads and writes: the transaction, the metadata word and
  the value of every row (\<^verbatim>\<open>table->search_metadata(key)\<close>, \<^verbatim>\<open>table->update(key, value)\<close>), the
  outbound message under construction for every coordinator (\<^verbatim>\<open>messages[i]\<close>), and the
  outbound queue, which holds each released message with its destination.
\<close>

record world =
  txn :: ScarTransaction
  meta :: "row \<Rightarrow> u64"
  vals :: "row \<Rightarrow> nat"
  messages :: "piece list list"
  out_queue :: "(nat \<times> piece list) list"

text \<open>\<^verbatim>\<open>txn.network_size += MessageFactoryType::new_..._message(*messages[c], ...)\<close>: the piece
  is appended to the message for coordinator \<open>c\<close>. An index past the vector is undefined
  behaviour in the source; here it leaves the messages as they are.\<close>

definition send :: "partitioner \<Rightarrow> nat \<Rightarrow> piece \<Rightarrow> world \<Rightarrow> world" where
  "send P c p w =
     w\<lparr>messages := (messages w)[c := messages w ! c @ [p]],
       txn := (txn w)\<lparr>network_size := network_size (txn w) + piece_size P p\<rparr>\<rparr>"

definition inc_pending :: "world \<Rightarrow> world" where
  "inc_pending w = w\<lparr>txn := (txn w)\<lparr>pendingResponses := pendingResponses (txn w) + 1\<rparr>\<rparr>"

section \<open>Executor::flush_messages and Scar::sync_messages\<close>

text \<open>\<^verbatim>\<open>Executor::flush_messages\<close> (core/Executor.h), to which the executor binds the hook
  \<^verbatim>\<open>message_flusher\<close>: every message but the one for this coordinator that holds a piece
  is released to the outbound queue and replaced by a fresh one.\<close>

fun flush_from :: "nat \<Rightarrow> nat \<Rightarrow> piece list list \<Rightarrow> (nat \<times> piece list) list \<Rightarrow>
    piece list list \<times> (nat \<times> piece list) list" where
  "flush_from self i [] q = ([], q)"
| "flush_from self i (m # ms) q =
     (if i = self then (let (ms', q') = flush_from self (Suc i) ms q in (m # ms', q'))
      else if m = [] then (let (ms', q') = flush_from self (Suc i) ms q in (m # ms', q'))
      else (let (ms', q') = flush_from self (Suc i) ms (q @ [(i, m)]) in ([] # ms', q')))"

definition flush_messages :: "partitioner \<Rightarrow> world \<Rightarrow> world" where
  "flush_messages P w =
     (let (ms', q') = flush_from (self_id P) 0 (messages w) (out_queue w)
      in w\<lparr>messages := ms', out_queue := q'\<rparr>)"

text \<open>The loop \<^verbatim>\<open>while (txn.pendingResponses > 0) txn.remote_request_handler();\<close>. The hook
  \<open>h\<close> stands for \<^verbatim>\<open>Executor::process_request\<close>, which runs the message handlers of
  ScarMessage.h (missing) on whatever other coordinators have sent. The loop ends only when
  the handlers have brought the counter to zero; \<open>None\<close> is a loop that never ends.\<close>

partial_function (option) pump :: "(world \<Rightarrow> world) \<Rightarrow> world \<Rightarrow> world option" where
  "pump h w = (if pendingResponses (txn w) > 0 then pump h (h w) else Some w)"

definition sync_messages :: "partitioner \<Rightarrow> (world \<Rightarrow> world) \<Rightarrow> bool \<Rightarrow> world \<Rightarrow> world option" where
  "sync_messages P h wait_response w =
     (let w1 = flush_messages P w in if wait_response then pump h w1 else Some w1)"

section \<open>Scar::compute_commit_ts\<close>

definition compute_commit_ts :: "ScarTransaction \<Rightarrow> ScarTransaction" where
  "compute_commit_ts t =
     (let ts = foldl (\<lambda>ts rk. max ts (get_wts (tid rk))) 0 (readSet t);
          t1 = t\<lparr>commit_rts := ts\<rparr>;
          ts' = foldl (\<lambda>ts wk. max ts (get_rts (tid wk) + 1)) ts (writeSet t1)
      in t1\<lparr>commit_wts := ts'\<rparr>)"

section \<open>Scar::lock_write_set\<close>

text \<open>The loops of \<^verbatim>\<open>Scar.h\<close> walk a set by index and change the entry at hand through a
  reference. Here a loop takes the entries from index \<open>i\<close> on and gives them back as the
  loop leaves them; the function around the loop stores them in the transaction. A
  \<^verbatim>\<open>break\<close> gives the remaining entries back untouched. \<^verbatim>\<open>DCHECK\<close>s are compiled out (a
  release build); the one of \<^verbatim>\<open>lock_write_set\<close> guards a pointer that is dereferenced next,
  so a blind write is the error \<open>NullReadKey\<close>.\<close>

datatype error = NullReadKey

definition set_abort_lock :: "world \<Rightarrow> world" where
  "set_abort_lock w = w\<lparr>txn := (txn w)\<lparr>abort_lock := True\<rparr>\<rparr>"

definition set_abort_read_validation :: "world \<Rightarrow> world" where
  "set_abort_read_validation w = w\<lparr>txn := (txn w)\<lparr>abort_read_validation := True\<rparr>\<rparr>"

definition store_meta :: "row \<Rightarrow> u64 \<Rightarrow> world \<Rightarrow> world" where
  "store_meta r a w = w\<lparr>meta := (meta w)(r := a)\<rparr>"

definition update_row :: "row \<Rightarrow> nat \<Rightarrow> world \<Rightarrow> world" where
  "update_row r v w = w\<lparr>vals := (vals w)(r := v)\<rparr>"

definition keep :: "RWKey \<Rightarrow> RWKey list \<times> world \<Rightarrow> RWKey list \<times> world" where
  "keep k r = (k # fst r, snd r)"

definition keep_ok :: "RWKey \<Rightarrow> error + RWKey list \<times> world \<Rightarrow> error + RWKey list \<times> world" where
  "keep_ok k r = (case r of Inl e \<Rightarrow> Inl e | Inr r' \<Rightarrow> Inr (keep k r'))"

fun lock_loop :: "partitioner \<Rightarrow> RWKey list \<Rightarrow> nat \<Rightarrow> RWKey list \<Rightarrow> world \<Rightarrow>
    error + RWKey list \<times> world" where
  "lock_loop P rs i [] w = Inr ([], w)"
| "lock_loop P rs i (writeKey # rest) w =
     (if has_master_partition P (partition_id writeKey) then
        (case lock (meta w (row_of writeKey)) of (latestTid, success, a') \<Rightarrow>
           if \<not> success then Inr (writeKey # rest, set_abort_lock w)
           else
             (case get_read_key rs (key writeKey) of
                None \<Rightarrow> Inl NullReadKey
              | Some readKey \<Rightarrow>
                  if get_wts latestTid \<noteq> get_wts (tid readKey)
                  then Inr (writeKey\<lparr>write_lock_bit := True, tid := latestTid\<rparr> # rest,
                            set_abort_lock (store_meta (row_of writeKey) a' w))
                  else keep_ok (writeKey\<lparr>write_lock_bit := True, tid := latestTid\<rparr>)
                         (lock_loop P rs (Suc i) rest (store_meta (row_of writeKey) a' w))))
      else
        keep_ok writeKey
          (lock_loop P rs (Suc i) rest
             (send P (master_coordinator P (partition_id writeKey))
                (LOCK_REQ (table_id writeKey) (partition_id writeKey) (key writeKey) i)
                (inc_pending w))))"

definition lock_write_set :: "partitioner \<Rightarrow> (world \<Rightarrow> world) \<Rightarrow> world \<Rightarrow>
    (error + bool \<times> world) option" where
  "lock_write_set P h w =
     (case lock_loop P (readSet (txn w)) 0 (writeSet (txn w)) w of
        Inl e \<Rightarrow> Some (Inl e)
      | Inr (ws', w1) \<Rightarrow>
          (case sync_messages P h True (w1\<lparr>txn := (txn w1)\<lparr>writeSet := ws'\<rparr>\<rparr>) of
             None \<Rightarrow> None
           | Some w2 \<Rightarrow> Some (Inr (abort_lock (txn w2), w2))))"

section \<open>Scar::validate_read_set\<close>

fun isKeyInWriteSet :: "RWKey list \<Rightarrow> nat \<Rightarrow> bool" where
  "isKeyInWriteSet [] k = False"
| "isKeyInWriteSet (writeKey # ws) k = (if key writeKey = k then True else isKeyInWriteSet ws k)"

text \<open>What the loop does to a read key after a successful local validation.\<close>

definition validated :: "RWKey \<Rightarrow> u64 \<Rightarrow> RWKey" where
  "validated readKey written_ts =
     (if get_wts written_ts \<noteq> get_wts (tid readKey)
      then readKey\<lparr>read_validation_success_bit := True,
                   wts_change_in_read_validation_bit := True, tid := written_ts\<rparr>
      else readKey\<lparr>read_validation_success_bit := True\<rparr>)"

text \<open>\<^verbatim>\<open>ScarHelper::validate_read_key\<close> is an argument \<open>V\<close> of the loop (ScarHelper.h is
  missing): given the current word of the record, the captured tid, the commit timestamp
  and the initial value of \<^verbatim>\<open>written_ts\<close>, it returns its verdict, the final value of
  \<^verbatim>\<open>written_ts\<close> and the new word of the record. What \<^verbatim>\<open>Scar.h\<close> does with the verdict and
  with the tid written back is the same for every helper; \<open>validate_read_key\<close> above is the
  helper the specification describes.\<close>

type_synonym read_validator = "u64 \<Rightarrow> u64 \<Rightarrow> u64 \<Rightarrow> u64 \<Rightarrow> bool \<times> u64 \<times> u64"

fun validate_loop :: "read_validator \<Rightarrow> partitioner \<Rightarrow> u64 \<Rightarrow> RWKey list \<Rightarrow> nat \<Rightarrow>
    RWKey list \<Rightarrow> world \<Rightarrow> RWKey list \<times> world" where
  "validate_loop V P commit_ts ws i [] w = ([], w)"
| "validate_loop V P commit_ts ws i (readKey # rest) w =
     (if local_index_read_bit readKey
      then keep readKey (validate_loop V P commit_ts ws (Suc i) rest w)
      else if isKeyInWriteSet ws (key readKey)
      then keep readKey (validate_loop V P commit_ts ws (Suc i) rest w)
      else if has_master_partition P (partition_id readKey) then
        (case V (meta w (row_of readKey)) (tid readKey) commit_ts (tid readKey) of
           (ok, written_ts, latest') \<Rightarrow>
             if ok
             then keep (validated readKey written_ts)
                    (validate_loop V P commit_ts ws (Suc i) rest (store_meta (row_of readKey) latest' w))
             else (readKey # rest,
                   set_abort_read_validation (store_meta (row_of readKey) latest' w)))
      else
        keep readKey
          (validate_loop V P commit_ts ws (Suc i) rest
             (send P (master_coordinator P (partition_id readKey))
                (READ_VALIDATION_REQ (table_id readKey) (partition_id readKey) (key readKey) i
                   (tid readKey) commit_ts)
                (inc_pending w))))"

definition validate_read_set :: "read_validator \<Rightarrow> partitioner \<Rightarrow> (world \<Rightarrow> world) \<Rightarrow> world \<Rightarrow>
    (bool \<times> world) option" where
  "validate_read_set V P h w =
     (case validate_loop V P (commit_wts (txn w)) (writeSet (txn w)) 0 (readSet (txn w)) w of
        (rs', w1) \<Rightarrow>
          (case sync_messages P h True (w1\<lparr>txn := (txn w1)\<lparr>readSet := rs'\<rparr>\<rparr>) of
             None \<Rightarrow> None
           | Some w2 \<Rightarrow> Some (\<not> abort_read_validation (txn w2), w2)))"

section \<open>Scar::write_and_replicate, Scar::release_lock, Scar::abort, Scar::commit\<close>

text \<open>The inner loop of \<^verbatim>\<open>write_and_replicate\<close> over the coordinators \<open>k\<close>. The counter
  \<^verbatim>\<open>replicate_count\<close> is read by a \<^verbatim>\<open>DCHECK\<close> only.\<close>

fun replicate_loop :: "partitioner \<Rightarrow> u64 \<Rightarrow> RWKey \<Rightarrow> nat list \<Rightarrow> world \<Rightarrow> world option" where
  "replicate_loop P cwts writeKey [] w = Some w"
| "replicate_loop P cwts writeKey (k # ks) w =
     (if \<not> is_partition_replicated_on P (partition_id writeKey) k
      then replicate_loop P cwts writeKey ks w
      else if k = master_coordinator P (partition_id writeKey)
      then replicate_loop P cwts writeKey ks w
      else if k = coordinator_id (txn w) then
        (case lock_spin (meta w (row_of writeKey)) of
           None \<Rightarrow> None
         | Some (last_tid, a') \<Rightarrow>
             replicate_loop P cwts writeKey ks
               (store_meta (row_of writeKey) (unlock_with_commit a' cwts)
                  (update_row (row_of writeKey) (val writeKey) (store_meta (row_of writeKey) a' w))))
      else
        replicate_loop P cwts writeKey ks
          (send P k
             (REPLICATE_REQ (table_id writeKey) (partition_id writeKey) (key writeKey)
                (val writeKey) cwts)
             (inc_pending w)))"

fun write_loop :: "partitioner \<Rightarrow> u64 \<Rightarrow> RWKey list \<Rightarrow> world \<Rightarrow> world option" where
  "write_loop P cwts [] w = Some w"
| "write_loop P cwts (writeKey # rest) w =
     (case replicate_loop P cwts writeKey [0..<total_coordinators P]
             (if has_master_partition P (partition_id writeKey)
              then update_row (row_of writeKey) (val writeKey) w
              else send P (master_coordinator P (partition_id writeKey))
                     (WRITE_REQ (table_id writeKey) (partition_id writeKey) (key writeKey)
                        (val writeKey))
                     (inc_pending w)) of
        None \<Rightarrow> None
      | Some w1 \<Rightarrow> write_loop P cwts rest w1)"

definition write_and_replicate :: "partitioner \<Rightarrow> (world \<Rightarrow> world) \<Rightarrow> world \<Rightarrow> world option" where
  "write_and_replicate P h w =
     (case write_loop P (commit_wts (txn w)) (writeSet (txn w)) w of
        None \<Rightarrow> None
      | Some w1 \<Rightarrow> sync_messages P h True w1)"

fun release_loop :: "partitioner \<Rightarrow> u64 \<Rightarrow> RWKey list \<Rightarrow> world \<Rightarrow> world" where
  "release_loop P cwts [] w = w"
| "release_loop P cwts (writeKey # rest) w =
     (if has_master_partition P (partition_id writeKey)
      then release_loop P cwts rest
             (store_meta (row_of writeKey)
                (unlock_with_commit (meta w (row_of writeKey)) cwts)
                (update_row (row_of writeKey) (val writeKey) w))
      else release_loop P cwts rest
             (send P (master_coordinator P (partition_id writeKey))
                (RELEASE_LOCK_REQ (table_id writeKey) (partition_id writeKey) (key writeKey)
                   cwts)
                w))"

definition release_lock :: "partitioner \<Rightarrow> (world \<Rightarrow> world) \<Rightarrow> world \<Rightarrow> world option" where
  "release_lock P h w =
     sync_messages P h False (release_loop P (commit_wts (txn w)) (writeSet (txn w)) w)"

fun abort_loop :: "partitioner \<Rightarrow> RWKey list \<Rightarrow> world \<Rightarrow> world" where
  "abort_loop P [] w = w"
| "abort_loop P (writeKey # rest) w =
     (if \<not> write_lock_bit writeKey then abort_loop P rest w
      else if has_master_partition P (partition_id writeKey)
      then abort_loop P rest
             (store_meta (row_of writeKey) (unlock (meta w (row_of writeKey))) w)
      else abort_loop P rest
             (send P (master_coordinator P (partition_id writeKey))
                (ABORT_REQ (table_id writeKey) (partition_id writeKey) (key writeKey)) w))"

definition abort :: "partitioner \<Rightarrow> (world \<Rightarrow> world) \<Rightarrow> world \<Rightarrow> world option" where
  "abort P h w = sync_messages P h False (abort_loop P (writeSet (txn w)) w)"

definition commit :: "read_validator \<Rightarrow> partitioner \<Rightarrow> (world \<Rightarrow> world) \<Rightarrow> world \<Rightarrow>
    (error + bool \<times> world) option" where
  "commit V P h w =
     (case lock_write_set P h w of
        None \<Rightarrow> None
      | Some (Inl e) \<Rightarrow> Some (Inl e)
      | Some (Inr (locked_out, w1)) \<Rightarrow>
          if locked_out
          then (case abort P h w1 of None \<Rightarrow> None | Some w2 \<Rightarrow> Some (Inr (False, w2)))
          else
            (case validate_read_set V P h (w1\<lparr>txn := compute_commit_ts (txn w1)\<rparr>) of
               None \<Rightarrow> None
             | Some (valid, w3) \<Rightarrow>
                 if \<not> valid
                 then (case abort P h w3 of None \<Rightarrow> None | Some w4 \<Rightarrow> Some (Inr (False, w4)))
                 else
                   (case write_and_replicate P h w3 of
                      None \<Rightarrow> None
                    | Some w4 \<Rightarrow>
                        (case release_lock P h w4 of
                           None \<Rightarrow> None
                         | Some w5 \<Rightarrow> Some (Inr (True, w5))))))"

section \<open>Example inputs\<close>

text \<open>Modelled from the spec: a default-constructed read/write key (ScarRWKey.h and
  AriaRWKey.h are missing): every field zero, every bit clear.\<close>

definition new_RWKey :: RWKey where
  "new_RWKey =
     \<lparr>table_id = 0, partition_id = 0, key = 0, val = 0, tid = 0, read_request_bit = False,
      local_index_read_bit = False, write_lock_bit = False, execution_processed_bit = False,
      read_validation_success_bit = False, wts_change_in_read_validation_bit = False\<rparr>"

text \<open>An unlocked metadata word with the given write timestamp and delta.\<close>

definition tid_of :: "u64 \<Rightarrow> u64 \<Rightarrow> u64" where
  "tid_of wts delta = set_delta (push_bit 32 (take_bit 31 wts)) delta"

text \<open>A transaction of coordinator 0 with the given read and write set, as \<^verbatim>\<open>reset()\<close> and
  \<^verbatim>\<open>execute()\<close> leave it.\<close>

definition txn_of :: "RWKey list \<Rightarrow> RWKey list \<Rightarrow> ScarTransaction" where
  "txn_of rs ws =
     \<lparr>coordinator_id = 0, readSet = rs, writeSet = ws, pendingResponses = 0, network_size = 0,
      abort_lock = False, abort_no_retry = False, abort_read_validation = False,
      commit_rts = 0, commit_wts = 0\<rparr>"

text \<open>A read of key 11 at write timestamp 5 and a read of key 12 at write timestamp 8, both
  in table 0 and partition 0.\<close>

definition two_reads :: "RWKey list" where
  "two_reads = [new_RWKey\<lparr>key := 11, tid := tid_of 5 0\<rparr>, new_RWKey\<lparr>key := 12, tid := tid_of 8 0\<rparr>]"

text \<open>Two coordinators, this one is coordinator 0; partition \<open>p\<close> is mastered by coordinator
  \<open>p mod 2\<close> and replicated everywhere; every piece counts one byte.\<close>

definition P0 :: partitioner where
  "P0 = \<lparr>self_id = 0, master_coordinator = (\<lambda>p. p mod 2),
          is_partition_replicated_on = (\<lambda>p k. True), total_coordinators = 2,
          piece_size = (\<lambda>m. 1)\<rparr>"

text \<open>A worker's state around a transaction: the given metadata words, two empty outbound
  messages, an empty outbound queue.\<close>

definition world_of :: "ScarTransaction \<Rightarrow> (row \<Rightarrow> u64) \<Rightarrow> world" where
  "world_of t m = \<lparr>txn = t, meta = m, vals = (\<lambda>r. 0), messages = [[], []], out_queue = []\<rparr>"

text \<open>A remote request handler that finds every awaited response in the inbound queue at
  its first call.\<close>

definition answer_all :: "world \<Rightarrow> world" where
  "answer_all w = w\<lparr>txn := (txn w)\<lparr>pendingResponses := 0\<rparr>\<rparr>"

text \<open>A write set as \<^verbatim>\<open>lock_write_set\<close> can leave it: key 11 (local) locked, key 12 (local)
  not locked, key 13 in partition 1 (remote) locked.\<close>

definition locked_writes :: "RWKey list" where
  "locked_writes =
     [new_RWKey\<lparr>key := 11, write_lock_bit := True\<rparr>,
      new_RWKey\<lparr>key := 12\<rparr>,
      new_RWKey\<lparr>key := 13, partition_id := 1, write_lock_bit := True\<rparr>]"




text \<open>A transaction that read row 11 at write timestamp 5 and writes the value 7 to it.
  Partition 0 is mastered here and replicated on coordinator 1.\<close>

definition replicated_write :: RWKey where
  "replicated_write = new_RWKey\<lparr>key := 11, val := 7\<rparr>"

definition write_world :: world where
  "write_world =
     world_of (txn_of [new_RWKey\<lparr>key := 11, tid := tid_of 5 0\<rparr>] [replicated_write])
       (\<lambda>r. tid_of 5 0)"

text \<open>The same transaction after \<^verbatim>\<open>lock_write_set\<close>, \<^verbatim>\<open>compute_commit_ts\<close> and
  \<^verbatim>\<open>validate_read_set\<close>: row 11 is locked, the commit timestamps are 5 and 6.\<close>

definition locked_write :: RWKey where
  "locked_write = replicated_write\<lparr>write_lock_bit := True, tid := tid_of 5 0\<rparr>"

definition locked_world :: world where
  "locked_world =
     world_of ((txn_of [new_RWKey\<lparr>key := 11, tid := tid_of 5 0\<rparr>] [locked_write])
                 \<lparr>commit_rts := 5, commit_wts := 6\<rparr>)
       (\<lambda>r. if r = (0, 0, 11) then set_bit 63 (tid_of 5 0) else tid_of 5 0)"

section \<open>Executor::start (core/Executor.h)\<close>

text \<open>Modelled from the spec: the values of \<^verbatim>\<open>TransactionResult\<close> (core/Defs.h is missing),
  section 4.3.\<close>

datatype TransactionResult = READY_TO_COMMIT | ABORT | ABORT_NORETRY

text \<open>\<^verbatim>\<open>core/Context.h\<close>, the fields the executors read.\<close>

record Context =
  partition_num :: nat
  worker_num :: nat
  coordinator_num :: nat

text \<open>
  The state of a worker thread. The workload and the protocol are template parameters of
  the executors, so the transaction type \<open>'t\<close> is a parameter here, and \<open>'e\<close> is everything
  else the workload, the protocol and the message handlers read and write (the database,
  the storage, the message queues). The counters are those of the base class \<^verbatim>\<open>Worker\<close>;
  \<open>random\<close> is the seed of \<^verbatim>\<open>RandomType random\<close>, read by \<^verbatim>\<open>get_seed()\<close> and written by
  \<^verbatim>\<open>set_seed()\<close>; \<open>percentile\<close> counts the latencies added (the latency itself is wall-clock
  time); \<open>transaction\<close> is the \<^verbatim>\<open>unique_ptr\<close>, \<open>None\<close> when null; \<open>last_seed\<close> and
  \<open>retry_transaction\<close> are the local variables of the loop.
\<close>

record ('t, 'e) executor =
  n_commit :: nat
  n_abort_no_retry :: nat
  n_abort_lock :: nat
  n_abort_read_validation :: nat
  n_network_size :: nat
  random :: u64
  percentile :: nat
  transaction :: "'t option"
  last_seed :: u64
  retry_transaction :: bool
  env :: 'e

text \<open>
  What the executor calls and the sources do not define: \<open>process_request\<close> stands for
  \<^verbatim>\<open>Executor::process_request\<close> with the message handlers of the protocol (it may change the
  transaction the pointer refers to, and \<open>'e\<close>); \<open>uniform_dist\<close> for
  \<^verbatim>\<open>Random::uniform_dist\<close>, which returns a number and advances the seed;
  \<open>next_transaction\<close> for \<^verbatim>\<open>workload.next_transaction(context, partition_id, storage)\<close>, which
  draws from the same random generator; \<open>reset\<close> and \<open>execute\<close> for the methods of the
  transaction; \<open>protocol_commit\<close> for \<^verbatim>\<open>protocol.commit(*transaction, messages)\<close>, \<open>None\<close> when
  it never returns; \<open>abort_lock_of\<close> and \<open>network_size_of\<close> read the transaction's fields.
\<close>

record ('t, 'e) hooks =
  process_request :: "'t option \<times> 'e \<Rightarrow> 't option \<times> 'e"
  uniform_dist :: "u64 \<Rightarrow> nat \<Rightarrow> nat \<Rightarrow> nat \<times> u64"
  next_transaction :: "nat \<Rightarrow> u64 \<times> 'e \<Rightarrow> 't \<times> u64 \<times> 'e"
  reset :: "'t \<Rightarrow> 't"
  execute :: "'t \<Rightarrow> u64 \<times> 'e \<Rightarrow> TransactionResult \<times> 't \<times> u64 \<times> 'e"
  protocol_commit :: "'t \<Rightarrow> 'e \<Rightarrow> (bool \<times> 't \<times> 'e) option"
  abort_lock_of :: "'t \<Rightarrow> bool"
  network_size_of :: "'t \<Rightarrow> nat"

text \<open>What stops a worker besides its stop flag: \<^verbatim>\<open>transaction->reset()\<close> on a null pointer,
  a division by zero, a failed \<^verbatim>\<open>CHECK\<close>.\<close>

datatype fault = NullTransaction | DivisionByZero | CheckFailed

text \<open>The first half of an iteration of \<^verbatim>\<open>Executor::start\<close>: \<^verbatim>\<open>process_request()\<close>, then
  \<^verbatim>\<open>last_seed = random.get_seed()\<close>, then either \<^verbatim>\<open>transaction->reset()\<close> or a new partition
  and a new transaction. \<^verbatim>\<open>partition_num_per_node - 1\<close> and the partition id are
  computed in \<^verbatim>\<open>std::size_t\<close>, modulo \<open>2\<^sup>6\<^sup>4\<close>.
  \<^verbatim>\<open>setupHandlers\<close> binds the hooks, which are arguments here.\<close>

definition prepare :: "Context \<Rightarrow> nat \<Rightarrow> ('t, 'e) hooks \<Rightarrow> ('t, 'e) executor \<Rightarrow>
    fault + ('t, 'e) executor" where
  "prepare ctx cid H s =
     (case process_request H (transaction s, env s) of (t0, e0) \<Rightarrow>
        if retry_transaction s then
          (case t0 of
             None \<Rightarrow> Inl NullTransaction
           | Some t \<Rightarrow> Inr (s\<lparr>last_seed := random s, transaction := Some (reset H t), env := e0\<rparr>))
        else if coordinator_num ctx = 0 then Inl DivisionByZero
        else
          (case uniform_dist H (random s) 0
                  ((partition_num ctx div coordinator_num ctx + 2 ^ 64 - 1) mod 2 ^ 64) of
             (r, sd) \<Rightarrow>
               (case next_transaction H ((r * coordinator_num ctx + cid) mod 2 ^ 64) (sd, e0) of
                  (t, sd', e') \<Rightarrow>
                    Inr (s\<lparr>last_seed := random s, random := sd', transaction := Some t,
                           env := e'\<rparr>))))"

text \<open>The second half: \<^verbatim>\<open>transaction->execute()\<close>, then the commit and the counters.\<close>

definition settle :: "('t, 'e) hooks \<Rightarrow> ('t, 'e) executor \<Rightarrow> (fault + ('t, 'e) executor) option" where
  "settle H s =
     (case transaction s of
        None \<Rightarrow> Some (Inl NullTransaction)
      | Some t1 \<Rightarrow>
          (case execute H t1 (random s, env s) of (result, t2, sd2, e2) \<Rightarrow>
             if result = READY_TO_COMMIT then
               (case protocol_commit H t2 e2 of
                  None \<Rightarrow> None
                | Some (ok, t3, e3) \<Rightarrow>
                    if ok
                    then Some (Inr (s\<lparr>n_commit := n_commit s + 1, percentile := percentile s + 1,
                                       retry_transaction := False, transaction := Some t3,
                                       random := sd2, env := e3\<rparr>))
                    else if abort_lock_of H t3
                    then Some (Inr (s\<lparr>n_abort_lock := n_abort_lock s + 1,
                                       random := last_seed s, retry_transaction := True,
                                       transaction := Some t3, env := e3\<rparr>))
                    else Some (Inr (s\<lparr>n_abort_read_validation := n_abort_read_validation s + 1,
                                       random := last_seed s, retry_transaction := True,
                                       transaction := Some t3, env := e3\<rparr>)))
             else Some (Inr (s\<lparr>n_abort_no_retry := n_abort_no_retry s + 1,
                                transaction := Some t2, random := sd2, env := e2\<rparr>))))"

definition iteration :: "Context \<Rightarrow> nat \<Rightarrow> ('t, 'e) hooks \<Rightarrow> ('t, 'e) executor \<Rightarrow>
    (fault + ('t, 'e) executor) option" where
  "iteration ctx cid H s = (case prepare ctx cid H s of Inl f \<Rightarrow> Some (Inl f) | Inr s1 \<Rightarrow> settle H s1)"

text \<open>\<^verbatim>\<open>while (!stopFlag.load()) { ... }\<close>: the list holds what the successive loads of the
  stop flag return. A list that ends before a load returns true is a worker that is still
  running: \<open>None\<close>.\<close>

fun start :: "Context \<Rightarrow> nat \<Rightarrow> ('t, 'e) hooks \<Rightarrow> bool list \<Rightarrow> ('t, 'e) executor \<Rightarrow>
    (fault + ('t, 'e) executor) option" where
  "start ctx cid H [] s = None"
| "start ctx cid H (stop # loads) s =
     (if stop then Some (Inr s)
      else (case iteration ctx cid H s of
              None \<Rightarrow> None
            | Some (Inl f) \<Rightarrow> Some (Inl f)
            | Some (Inr s') \<Rightarrow> start ctx cid H loads s'))"

section \<open>RStoreExecutor (protocol/RStore/RStoreExecutor.h)\<close>

text \<open>Modelled from the spec: the values of \<^verbatim>\<open>ExecutorStatus\<close> (core/Defs.h is missing),
  sections 4.4.4 and 4.6.\<close>

datatype ExecutorStatus = C_PHASE | S_PHASE | STOP | EXIT

text \<open>
  What one worker does to the shared counters and to its own queue, in program order:
  \<^verbatim>\<open>n_started_workers.fetch_add(1)\<close>, \<^verbatim>\<open>n_complete_workers.fetch_add(1)\<close>, a call of
  \<^verbatim>\<open>run_transaction\<close> with its phase and the length of \<open>q\<close> at the call, a call of
  \<^verbatim>\<open>process_request\<close>, and a call of \<^verbatim>\<open>commit_transactions\<close> with the number of
  transactions it drained. The source keeps no such list; the two counters are shared
  with the other workers and with the coordinator, which resets them, so what this worker
  adds is read off the list.
\<close>

datatype event =
    STARTED_ADD
  | COMPLETE_ADD
  | RUN_TRANSACTION ExecutorStatus nat
  | PROCESS_REQUEST
  | COMMIT_TRANSACTIONS nat

text \<open>A worker of R-Store has the fields of \<open>executor\<close> (there \<open>transaction\<close>, \<open>last_seed\<close>
  and \<open>retry_transaction\<close> are locals of \<^verbatim>\<open>run_transaction\<close>), the queue \<open>q\<close> of committed
  transactions, and the list of events.\<close>

record ('t, 'e) rstore_executor = "('t, 'e) executor" +
  q :: "'t list"
  trace :: "event list"

text \<open>
  What \<^verbatim>\<open>RStoreExecutor\<close> calls and the sources do not define. The protocol and the
  workload are built in \<^verbatim>\<open>run_transaction\<close> from the context and the partitioner of the
  phase, so their hooks depend on the phase; \<^verbatim>\<open>RStoreExecutor::process_request\<close> and
  \<^verbatim>\<open>flush_messages\<close> touch the queues and the database only; \<open>query_num\<close> stands for
  \<^verbatim>\<open>get_c_phase_query_num()\<close> and \<^verbatim>\<open>get_s_phase_query_num()\<close>, \<open>batch_flush\<close> for
  \<^verbatim>\<open>phase_context.batch_flush\<close>, \<open>phase_has_master_partition\<close> for the partitioner of the
  phase.
\<close>

record ('t, 'e) rstore_params =
  phase_hooks :: "ExecutorStatus \<Rightarrow> ('t, 'e) hooks"
  r_process_request :: "'e \<Rightarrow> 'e"
  r_flush_messages :: "'e \<Rightarrow> 'e"
  query_num :: "ExecutorStatus \<Rightarrow> nat"
  batch_flush :: "ExecutorStatus \<Rightarrow> nat"
  phase_has_master_partition :: "ExecutorStatus \<Rightarrow> nat \<Rightarrow> bool"

definition log_event :: "event \<Rightarrow> ('t, 'e) rstore_executor \<Rightarrow> ('t, 'e) rstore_executor" where
  "log_event ev s = s\<lparr>trace := trace s @ [ev]\<rparr>"

definition rstore_process_request :: "('t, 'e) rstore_params \<Rightarrow> ('t, 'e) rstore_executor \<Rightarrow>
    ('t, 'e) rstore_executor" where
  "rstore_process_request X s = log_event PROCESS_REQUEST (s\<lparr>env := r_process_request X (env s)\<rparr>)"

text \<open>\<^verbatim>\<open>commit_transactions\<close>: one latency is added for every queued transaction, and the
  queue is empty afterwards.\<close>

definition commit_transactions :: "('t, 'e) rstore_executor \<Rightarrow> ('t, 'e) rstore_executor" where
  "commit_transactions s =
     log_event (COMMIT_TRANSACTIONS (length (q s)))
       (s\<lparr>percentile := percentile s + length (q s), q := []\<rparr>)"

text \<open>The body of the \<^verbatim>\<open>do { ... } while (retry_transaction)\<close> loop of \<^verbatim>\<open>run_transaction\<close>,
  in two halves as for \<^verbatim>\<open>Executor::start\<close>: first \<^verbatim>\<open>process_request()\<close>,
  \<^verbatim>\<open>last_seed = random.get_seed()\<close> and the reset or the new transaction for the partition
  \<open>pid\<close>; then \<^verbatim>\<open>execute()\<close>, the commit and the counters. A committed transaction is moved
  into \<open>q\<close>, which leaves the pointer null.\<close>

definition rstore_prepare :: "('t, 'e) rstore_params \<Rightarrow> ExecutorStatus \<Rightarrow> nat \<Rightarrow>
    ('t, 'e) rstore_executor \<Rightarrow> fault + ('t, 'e) rstore_executor" where
  "rstore_prepare X status pid s =
     (if retry_transaction s then
        (case transaction s of
           None \<Rightarrow> Inl NullTransaction
         | Some t \<Rightarrow>
             Inr (s\<lparr>last_seed := random s, transaction := Some (reset (phase_hooks X status) t),
                    env := r_process_request X (env s)\<rparr>))
      else
        (case next_transaction (phase_hooks X status) pid (random s, r_process_request X (env s)) of
           (t, sd, e) \<Rightarrow>
             Inr (s\<lparr>last_seed := random s, random := sd, transaction := Some t, env := e\<rparr>)))"

definition rstore_settle :: "('t, 'e) hooks \<Rightarrow> ('t, 'e) rstore_executor \<Rightarrow>
    (fault + ('t, 'e) rstore_executor) option" where
  "rstore_settle H s =
     (case transaction s of
        None \<Rightarrow> Some (Inl NullTransaction)
      | Some t1 \<Rightarrow>
          (case execute H t1 (random s, env s) of (result, t2, sd2, e2) \<Rightarrow>
             if result = READY_TO_COMMIT then
               (case protocol_commit H t2 e2 of
                  None \<Rightarrow> None
                | Some (ok, t3, e3) \<Rightarrow>
                    if ok
                    then Some (Inr (s\<lparr>n_commit := n_commit s + 1,
                                       n_network_size := n_network_size s + network_size_of H t3,
                                       retry_transaction := False, transaction := None,
                                       random := sd2, env := e3, q := q s @ [t3]\<rparr>))
                    else if abort_lock_of H t3
                    then Some (Inr (s\<lparr>n_abort_lock := n_abort_lock s + 1,
                                       n_network_size := n_network_size s + network_size_of H t3,
                                       random := last_seed s, retry_transaction := True,
                                       transaction := Some t3, env := e3\<rparr>))
                    else Some (Inr (s\<lparr>n_abort_read_validation := n_abort_read_validation s + 1,
                                       n_network_size := n_network_size s + network_size_of H t3,
                                       random := last_seed s, retry_transaction := True,
                                       transaction := Some t3, env := e3\<rparr>)))
             else Some (Inr (s\<lparr>n_abort_no_retry := n_abort_no_retry s + 1,
                                transaction := Some t2, random := sd2, env := e2\<rparr>))))"

definition rstore_attempt :: "('t, 'e) rstore_params \<Rightarrow> ExecutorStatus \<Rightarrow> nat \<Rightarrow>
    ('t, 'e) rstore_executor \<Rightarrow> (fault + ('t, 'e) rstore_executor) option" where
  "rstore_attempt X status pid s =
     (case rstore_prepare X status pid s of
        Inl f \<Rightarrow> Some (Inl f)
      | Inr s1 \<Rightarrow> rstore_settle (phase_hooks X status) s1)"

partial_function (option) rstore_retry_loop :: "('t, 'e) rstore_params \<Rightarrow> ExecutorStatus \<Rightarrow> nat \<Rightarrow>
    ('t, 'e) rstore_executor \<Rightarrow> (fault + ('t, 'e) rstore_executor) option" where
  "rstore_retry_loop X status pid s =
     (case rstore_attempt X status pid s of
        None \<Rightarrow> None
      | Some (Inl f) \<Rightarrow> Some (Inl f)
      | Some (Inr s') \<Rightarrow>
          if retry_transaction s' then rstore_retry_loop X status pid s' else Some (Inr s'))"

text \<open>The loop \<^verbatim>\<open>for (auto i = 0u; i < query_num; i++)\<close>, over the list of the values of
  \<open>i\<close>.\<close>

fun rstore_queries :: "('t, 'e) rstore_params \<Rightarrow> ExecutorStatus \<Rightarrow> nat \<Rightarrow> nat list \<Rightarrow>
    ('t, 'e) rstore_executor \<Rightarrow> (fault + ('t, 'e) rstore_executor) option" where
  "rstore_queries X status pid [] s = Some (Inr s)"
| "rstore_queries X status pid (i # rest) s =
     (case rstore_retry_loop X status pid (s\<lparr>retry_transaction := False\<rparr>) of
        None \<Rightarrow> None
      | Some (Inl f) \<Rightarrow> Some (Inl f)
      | Some (Inr s1) \<Rightarrow>
          if batch_flush X status = 0 then Some (Inl DivisionByZero)
          else if i mod batch_flush X status = 0
          then rstore_queries X status pid rest (s1\<lparr>env := r_flush_messages X (env s1)\<rparr>)
          else rstore_queries X status pid rest s1)"

text \<open>\<^verbatim>\<open>run_transaction(status)\<close> of the worker \<open>wid\<close> of coordinator \<open>cid\<close>. A failed
  \<^verbatim>\<open>CHECK\<close> ends the process.\<close>

definition run_transaction :: "Context \<Rightarrow> nat \<Rightarrow> nat \<Rightarrow> ('t, 'e) rstore_params \<Rightarrow> ExecutorStatus \<Rightarrow>
    ('t, 'e) rstore_executor \<Rightarrow> (fault + ('t, 'e) rstore_executor) option" where
  "run_transaction ctx cid wid X status s0 =
     (let s = log_event (RUN_TRANSACTION status (length (q s0))) s0;
          chosen =
            (if status = C_PHASE then
               (if cid \<noteq> 0 then Inl CheckFailed
                else if worker_num ctx = 0 then Inl DivisionByZero
                else if partition_num ctx mod worker_num ctx \<noteq> 0 then Inl CheckFailed
                else
                  (case uniform_dist (phase_hooks X status) (random s) 0
                          ((partition_num ctx div worker_num ctx + 2 ^ 64 - 1) mod 2 ^ 64) of
                     (r, sd) \<Rightarrow>
                       Inr ((wid * (partition_num ctx div worker_num ctx) + r) mod 2 ^ 64,
                            s\<lparr>random := sd\<rparr>)))
             else if status = S_PHASE then Inr ((wid * coordinator_num ctx + cid) mod 2 ^ 64, s)
             else Inl CheckFailed)
      in case chosen of
           Inl f \<Rightarrow> Some (Inl f)
         | Inr (pid, s1) \<Rightarrow>
             if \<not> phase_has_master_partition X status pid then Some (Inl CheckFailed)
             else
               (case rstore_queries X status pid [0..<query_num X status]
                       (s1\<lparr>last_seed := 0, transaction := None\<rparr>) of
                  None \<Rightarrow> None
                | Some (Inl f) \<Rightarrow> Some (Inl f)
                | Some (Inr s2) \<Rightarrow> Some (Inr (s2\<lparr>env := r_flush_messages X (env s2)\<rparr>))))"

text \<open>
  \<^verbatim>\<open>RStoreExecutor::start\<close>. The list holds what the successive loads of \<^verbatim>\<open>worker_status\<close>
  return; every loop of the source that loads the status is one of four places the worker
  can be at when it loads: waiting for the C-phase (the \<^verbatim>\<open>do ... while\<close> loop at the top),
  serving requests in the C-phase of another coordinator, waiting for the S-phase, and
  waiting for the stop after its S-phase. \<^verbatim>\<open>std::this_thread::yield()\<close> changes nothing. A
  list that ends before \<^verbatim>\<open>EXIT\<close> is loaded is a worker that is still running: \<open>None\<close>.
\<close>

datatype place = WAIT_C_PHASE | SERVE_C_PHASE | WAIT_S_PHASE | WAIT_STOP

fun rstore_start :: "Context \<Rightarrow> nat \<Rightarrow> nat \<Rightarrow> ('t, 'e) rstore_params \<Rightarrow> place \<Rightarrow>
    ExecutorStatus list \<Rightarrow> ('t, 'e) rstore_executor \<Rightarrow> (fault + ('t, 'e) rstore_executor) option" where
  "rstore_start ctx cid wid X pl [] s = None"
| "rstore_start ctx cid wid X WAIT_C_PHASE (status # loads) s =
     (if status = EXIT then Some (Inr (commit_transactions s))
      else if status \<noteq> C_PHASE then rstore_start ctx cid wid X WAIT_C_PHASE loads s
      else if cid = 0 then
        (case run_transaction ctx cid wid X C_PHASE (log_event STARTED_ADD (commit_transactions s)) of
           None \<Rightarrow> None
         | Some (Inl f) \<Rightarrow> Some (Inl f)
         | Some (Inr s1) \<Rightarrow> rstore_start ctx cid wid X WAIT_S_PHASE loads (log_event COMPLETE_ADD s1))
      else rstore_start ctx cid wid X SERVE_C_PHASE loads
             (log_event STARTED_ADD (commit_transactions s)))"
| "rstore_start ctx cid wid X SERVE_C_PHASE (status # loads) s =
     (if status \<noteq> STOP
      then rstore_start ctx cid wid X SERVE_C_PHASE loads (rstore_process_request X s)
      else rstore_start ctx cid wid X WAIT_S_PHASE loads
             (log_event COMPLETE_ADD (rstore_process_request X s)))"
| "rstore_start ctx cid wid X WAIT_S_PHASE (status # loads) s =
     (if status \<noteq> S_PHASE then rstore_start ctx cid wid X WAIT_S_PHASE loads s
      else
        (case run_transaction ctx cid wid X S_PHASE (log_event STARTED_ADD (commit_transactions s)) of
           None \<Rightarrow> None
         | Some (Inl f) \<Rightarrow> Some (Inl f)
         | Some (Inr s1) \<Rightarrow> rstore_start ctx cid wid X WAIT_STOP loads (log_event COMPLETE_ADD s1)))"
| "rstore_start ctx cid wid X WAIT_STOP (status # loads) s =
     (if status \<noteq> STOP then rstore_start ctx cid wid X WAIT_STOP loads s
      else rstore_start ctx cid wid X WAIT_C_PHASE loads
             (log_event COMPLETE_ADD (rstore_process_request X s)))"

section \<open>AriaTransaction (protocol/Aria/AriaTransaction.h)\<close>

text \<open>
  The fields of the class. A field whose name a record above already uses carries the
  suffix \<open>_aria\<close>. \<^verbatim>\<open>std::size_t\<close> fields are natural numbers, the 32-bit fields are words;
  \<^verbatim>\<open>startTime\<close> is a point in time, kept as a number; \<^verbatim>\<open>operation\<close> is never used (its class,
  common/Operation.h, is missing) and is the unit value. The function-valued fields are
  arguments of the functions that call them. The read and write keys are \<^verbatim>\<open>AriaRWKey\<close>s,
  with the fields of \<open>RWKey\<close>.
\<close>

record AriaTransaction =
  coordinator_id_aria :: nat
  partition_id_aria :: nat
  id_aria :: nat
  tid_offset :: nat
  epoch :: "32 word"
  startTime :: nat
  pendingResponses_aria :: nat
  network_size_aria :: nat
  local_read :: "32 word"
  remote_read :: "32 word"
  saved_local_read :: "32 word"
  saved_remote_read :: "32 word"
  abort_lock_aria :: bool
  abort_no_retry_aria :: bool
  abort_read_validation_aria :: bool
  distributed_transaction :: bool
  execution_phase :: bool
  waw :: bool
  war :: bool
  raw :: bool
  active_coordinators :: "bool list"
  operation :: unit
  readSet_aria :: "RWKey list"
  writeSet_aria :: "RWKey list"

text \<open>\<^verbatim>\<open>readSet.push_back(key); return readSet.size() - 1;\<close>\<close>

definition add_to_read_set :: "RWKey \<Rightarrow> AriaTransaction \<Rightarrow> nat \<times> AriaTransaction" where
  "add_to_read_set k t = (length (readSet_aria t), t\<lparr>readSet_aria := readSet_aria t @ [k]\<rparr>)"

definition add_to_write_set :: "RWKey \<Rightarrow> AriaTransaction \<Rightarrow> nat \<times> AriaTransaction" where
  "add_to_write_set k t = (length (writeSet_aria t), t\<lparr>writeSet_aria := writeSet_aria t @ [k]\<rparr>)"

text \<open>The four primitives take the key and the value by reference and store their
  addresses; the arguments \<open>k\<close> and \<open>v\<close> are those addresses.\<close>

definition search_local_index :: "nat \<Rightarrow> nat \<Rightarrow> nat \<Rightarrow> nat \<Rightarrow> AriaTransaction \<Rightarrow> AriaTransaction" where
  "search_local_index tb p k v t =
     (if execution_phase t then t
      else snd (add_to_read_set
                  (new_RWKey\<lparr>table_id := tb, partition_id := p, key := k, val := v,
                             local_index_read_bit := True, read_request_bit := True\<rparr>) t))"

definition search_for_read :: "nat \<Rightarrow> nat \<Rightarrow> nat \<Rightarrow> nat \<Rightarrow> AriaTransaction \<Rightarrow> AriaTransaction" where
  "search_for_read tb p k v t =
     (if execution_phase t then t
      else snd (add_to_read_set
                  (new_RWKey\<lparr>table_id := tb, partition_id := p, key := k, val := v,
                             read_request_bit := True\<rparr>) t))"

definition search_for_update :: "nat \<Rightarrow> nat \<Rightarrow> nat \<Rightarrow> nat \<Rightarrow> AriaTransaction \<Rightarrow> AriaTransaction" where
  "search_for_update tb p k v t =
     (if execution_phase t then t
      else snd (add_to_read_set
                  (new_RWKey\<lparr>table_id := tb, partition_id := p, key := k, val := v,
                             read_request_bit := True\<rparr>) t))"

definition update :: "nat \<Rightarrow> nat \<Rightarrow> nat \<Rightarrow> nat \<Rightarrow> AriaTransaction \<Rightarrow> AriaTransaction" where
  "update tb p k v t =
     (if execution_phase t then t
      else snd (add_to_write_set
                  (new_RWKey\<lparr>table_id := tb, partition_id := p, key := k, val := v\<rparr>) t))"

text \<open>
  The loop of the function object that \<^verbatim>\<open>setup_process_requests_in_execution_phase\<close>
  stores in \<^verbatim>\<open>process_requests\<close>: \<^verbatim>\<open>for (int i = int(readSet.size()) - 1; i >= 0; i--)\<close>.
  The index is an integer (a read set of \<open>2\<^sup>3\<^sup>1\<close> entries or more, where the conversion to
  \<^verbatim>\<open>int\<close> is not exact, is not considered). The hook \<^verbatim>\<open>aria_read_handler(readKey, id, i)\<close>
  gets the entry by reference and is the argument \<open>h\<close>: it returns the entry as it leaves
  it, and it reads and writes the rest of the worker's state \<open>'e\<close>. The last component
  lists the indices \<open>h\<close> was called with, in call order; the source keeps no such list.
\<close>

function process_requests_loop :: "(RWKey \<Rightarrow> nat \<Rightarrow> nat \<Rightarrow> 'e \<Rightarrow> RWKey \<times> 'e) \<Rightarrow> nat \<Rightarrow> int \<Rightarrow>
    RWKey list \<Rightarrow> 'e \<Rightarrow> nat list \<Rightarrow> RWKey list \<times> 'e \<times> nat list" where
  "process_requests_loop h txn_id i rs e calls =
     (if i \<ge> 0 then
        (if \<not> read_request_bit (rs ! nat i) then (rs, e, calls)
         else
           (case h (rs ! nat i) txn_id (nat i) e of
              (readKey, e') \<Rightarrow>
                process_requests_loop h txn_id (i - 1)
                  (rs[nat i := readKey\<lparr>read_request_bit := False\<rparr>]) e' (calls @ [nat i])))
      else (rs, e, calls))"
  by pat_completeness auto
termination
  by (relation "measure (\<lambda>(h, txn_id, i, rs, e, calls). nat (i + 1))") auto

text \<open>The equation is unfolded on request only: as a rewrite rule it would unfold itself.\<close>

declare process_requests_loop.simps [simp del]

text \<open>\<^verbatim>\<open>process_requests(worker_id)\<close> as set up for the execution phase; it returns false.\<close>

definition process_requests :: "(RWKey \<Rightarrow> nat \<Rightarrow> nat \<Rightarrow> 'e \<Rightarrow> RWKey \<times> 'e) \<Rightarrow> nat \<Rightarrow>
    AriaTransaction \<Rightarrow> 'e \<Rightarrow> bool \<times> AriaTransaction \<times> 'e \<times> nat list" where
  "process_requests h worker_id t e =
     (case process_requests_loop h (id_aria t) (int (length (readSet_aria t)) - 1)
             (readSet_aria t) e [] of
        (rs, e', calls) \<Rightarrow> (False, t\<lparr>readSet_aria := rs\<rparr>, e', calls))"

text \<open>An \<^verbatim>\<open>AriaTransaction\<close> as the constructor leaves it (it calls \<^verbatim>\<open>reset()\<close>), for
  coordinator 0 and partition 0.\<close>

definition fresh_aria :: AriaTransaction where
  "fresh_aria =
     \<lparr>coordinator_id_aria = 0, partition_id_aria = 0, id_aria = 0, tid_offset = 0, epoch = 0,
      startTime = 0, pendingResponses_aria = 0, network_size_aria = 0, local_read = 0,
      remote_read = 0, saved_local_read = 0, saved_remote_read = 0, abort_lock_aria = False,
      abort_no_retry_aria = False, abort_read_validation_aria = False,
      distributed_transaction = False, execution_phase = False, waw = False, war = False,
      raw = False, active_coordinators = [], operation = (), readSet_aria = [],
      writeSet_aria = []\<rparr>"

text \<open>A read set whose first and third entry await their read, and a read handler that
  stores the tid 7 in the entry and counts its calls.\<close>

definition three_reads :: "RWKey list" where
  "three_reads =
     [new_RWKey\<lparr>key := 11, read_request_bit := True\<rparr>,
      new_RWKey\<lparr>key := 12\<rparr>,
      new_RWKey\<lparr>key := 13, read_request_bit := True\<rparr>]"

definition count_reads :: "RWKey \<Rightarrow> nat \<Rightarrow> nat \<Rightarrow> nat \<Rightarrow> RWKey \<times> nat" where
  "count_reads readKey txn_id i e = (readKey\<lparr>tid := 7\<rparr>, e + 1)"

text \<open>
  A workload and a protocol small enough to run by hand. A transaction is the number of
  times it was reset; every draw from the random generator adds one to the seed;
  \<^verbatim>\<open>execute\<close> always returns \<^verbatim>\<open>READY_TO_COMMIT\<close>; the commit of a transaction that was never
  reset fails its read validation, the commit of a reset transaction succeeds; no message
  ever arrives. Two coordinators with two workers each share four partitions, and a worker
  starts with the seed 42.
\<close>

definition toy_hooks :: "(nat, nat) hooks" where
  "toy_hooks =
     \<lparr>process_request = (\<lambda>x. x),
      uniform_dist = (\<lambda>sd lo hi. (lo, sd + 1)),
      next_transaction = (\<lambda>pid x. (0, fst x + 1, snd x)),
      reset = Suc,
      execute = (\<lambda>t x. (READY_TO_COMMIT, t, fst x + 1, snd x)),
      protocol_commit = (\<lambda>t e. Some (0 < t, t, e)),
      abort_lock_of = (\<lambda>t. False),
      network_size_of = (\<lambda>t. 0)\<rparr>"

definition two_nodes :: Context where
  "two_nodes = \<lparr>partition_num = 4, worker_num = 2, coordinator_num = 2\<rparr>"

definition idle_executor :: "(nat, nat) executor" where
  "idle_executor =
     \<lparr>n_commit = 0, n_abort_no_retry = 0, n_abort_lock = 0, n_abort_read_validation = 0,
      n_network_size = 0, random = 42, percentile = 0, transaction = None, last_seed = 0,
      retry_transaction = False, env = 0\<rparr>"

definition toy_params :: "(nat, nat) rstore_params" where
  "toy_params =
     \<lparr>phase_hooks = (\<lambda>status. toy_hooks), r_process_request = (\<lambda>e. e),
      r_flush_messages = (\<lambda>e. e), query_num = (\<lambda>status. 1), batch_flush = (\<lambda>status. 1),
      phase_has_master_partition = (\<lambda>status p. True)\<rparr>"

definition idle_rstore_executor :: "(nat, nat) rstore_executor" where
  "idle_rstore_executor =
     \<lparr>n_commit = 0, n_abort_no_retry = 0, n_abort_lock = 0, n_abort_read_validation = 0,
      n_network_size = 0, random = 42, percentile = 0, transaction = None, last_seed = 0,
      retry_transaction = False, env = 0, q = [], trace = []\<rparr>"

section \<open>Properties of the metadata word\<close>

lemma get_wts_set_delta: "get_wts (set_delta t d) = get_wts t"
  unfolding get_wts_def set_delta_def
  by (rule bit_word_eqI) (auto simp: bit_simps)

lemma get_delta_set_delta: "get_delta (set_delta t d) = take_bit 27 d"
  unfolding get_delta_def set_delta_def
  by (rule bit_word_eqI) (auto simp: bit_simps)

lemma is_locked_set_delta: "is_locked (set_delta t d) = is_locked t"
  unfolding is_locked_def set_delta_def
  by (auto simp: bit_simps)

lemma get_wts_tid_of: "get_wts (tid_of w d) = take_bit 31 w"
  unfolding tid_of_def get_wts_set_delta
  unfolding get_wts_def
  by (rule bit_word_eqI) (auto simp: bit_simps)

lemma get_delta_tid_of: "get_delta (tid_of w d) = take_bit 27 d"
  by (simp add: tid_of_def get_delta_set_delta)

lemma is_locked_tid_of: "\<not> is_locked (tid_of w d)"
  by (simp add: tid_of_def is_locked_set_delta) (simp add: is_locked_def bit_simps)

lemma get_rts_tid_of: "get_rts (tid_of w d) = take_bit 31 w + take_bit 27 d"
  by (simp add: get_rts_def get_wts_tid_of get_delta_tid_of)

lemma get_wts_bound: "unat (get_wts t) < 2 ^ 31"
  unfolding get_wts_def using take_bit_nat_less_exp[of 31 "unat (drop_bit 32 t)"]
  by (simp add: unsigned_take_bit_eq)

lemma get_delta_bound: "unat (get_delta t) < 2 ^ 27"
  unfolding get_delta_def using take_bit_nat_less_exp[of 27 "unat (drop_bit 5 t)"]
  by (simp add: unsigned_take_bit_eq)

lemma unat_get_rts: "unat (get_rts t) = unat (get_wts t) + unat (get_delta t)"
  unfolding get_rts_def using get_wts_bound[of t] get_delta_bound[of t]
  by (simp add: unat_add_lem [THEN iffD1])

lemma unat_get_rts_succ: "unat (get_rts t + 1) = unat (get_rts t) + 1"
  using get_wts_bound[of t] get_delta_bound[of t] unat_get_rts[of t]
  by (simp add: unat_add_lem [THEN iffD1])

section \<open>Commit timestamps\<close>

lemma foldl_max_Max:
  fixes f :: "'a \<Rightarrow> 'b::linorder"
  shows "foldl (\<lambda>a x. max a (f x)) a0 xs = Max (insert a0 (f ` set xs))"
proof (induction xs arbitrary: a0)
  case Nil
  show ?case by simp
next
  case (Cons x xs)
  have "Max (insert (max a0 (f x)) (f ` set xs)) = Max (insert a0 (insert (f x) (f ` set xs)))"
    by (cases "xs = []") (simp_all add: max.assoc)
  with Cons show ?case by simp
qed

lemma unat_Max:
  fixes S :: "u64 set"
  assumes "finite S" "S \<noteq> {}"
  shows "unat (Max S) = Max (unat ` S)"
  by (rule mono_Max_commute[OF _ assms]) (simp add: mono_def word_le_nat_alt)

text \<open>
  Claim C2. \<^verbatim>\<open>compute_commit_ts\<close> sets \<^verbatim>\<open>commit_rts\<close> to the maximum of the write timestamps
  of the tids captured in the read set (0 when the read set is empty, the start value of
  the loop), and \<^verbatim>\<open>commit_wts\<close> to the maximum of \<^verbatim>\<open>commit_rts\<close> and of \<^verbatim>\<open>rts + 1\<close> over the
  tids captured in the write set; with an empty write set the two are equal. The third
  conjunct reads the same maximum over the natural numbers: \<^verbatim>\<open>rts + 1\<close> does not wrap
  around in 64 bits. The read and the write set are not changed.
\<close>

theorem compute_commit_ts_max:
  "commit_rts (compute_commit_ts t) = Max (insert 0 ((\<lambda>rk. get_wts (tid rk)) ` set (readSet t)))
   \<and> commit_wts (compute_commit_ts t) =
       Max (insert (commit_rts (compute_commit_ts t)) ((\<lambda>wk. get_rts (tid wk) + 1) ` set (writeSet t)))
   \<and> unat (commit_wts (compute_commit_ts t)) =
       Max (insert (unat (commit_rts (compute_commit_ts t)))
              ((\<lambda>wk. unat (get_rts (tid wk)) + 1) ` set (writeSet t)))
   \<and> (writeSet t = [] \<longrightarrow> commit_wts (compute_commit_ts t) = commit_rts (compute_commit_ts t))
   \<and> readSet (compute_commit_ts t) = readSet t \<and> writeSet (compute_commit_ts t) = writeSet t"
proof -
  let ?t = "compute_commit_ts t"
  have r: "commit_rts ?t = Max (insert 0 ((\<lambda>rk. get_wts (tid rk)) ` set (readSet t)))"
    by (simp add: compute_commit_ts_def Let_def foldl_max_Max)
  have w: "commit_wts ?t =
       Max (insert (commit_rts ?t) ((\<lambda>wk. get_rts (tid wk) + 1) ` set (writeSet t)))"
    by (simp add: compute_commit_ts_def Let_def foldl_max_Max)
  have "unat (commit_wts ?t) =
       Max (unat ` insert (commit_rts ?t) ((\<lambda>wk. get_rts (tid wk) + 1) ` set (writeSet t)))"
    unfolding w by (rule unat_Max) simp_all
  also have "\<dots> = Max (insert (unat (commit_rts ?t))
              ((\<lambda>wk. unat (get_rts (tid wk)) + 1) ` set (writeSet t)))"
    by (simp add: image_image unat_get_rts_succ)
  finally have n: "unat (commit_wts ?t) = Max (insert (unat (commit_rts ?t))
              ((\<lambda>wk. unat (get_rts (tid wk)) + 1) ` set (writeSet t)))" .
  have e: "writeSet t = [] \<longrightarrow> commit_wts ?t = commit_rts ?t"
    by (simp add: compute_commit_ts_def Let_def)
  have f: "readSet ?t = readSet t \<and> writeSet ?t = writeSet t"
    by (simp add: compute_commit_ts_def Let_def)
  from r w n e f show ?thesis by blast
qed

theorem compute_commit_ts_max_witness:
  "writeSet (txn_of two_reads []) = []
   \<and> commit_rts (compute_commit_ts (txn_of two_reads [])) = 8
   \<and> commit_wts (compute_commit_ts (txn_of two_reads [])) = 8"
  using compute_commit_ts_max [of "txn_of two_reads []"]
  by (simp add: txn_of_def two_reads_def new_RWKey_def get_wts_tid_of)

lemma is_locked_set_bit: "is_locked (set_bit 63 t)"
  by (simp add: is_locked_def bit_simps)

lemma is_locked_unlock: "\<not> is_locked (unlock t)"
  by (simp add: is_locked_def unlock_def bit_simps)

section \<open>The message pump\<close>

lemma pump_done: "pendingResponses (txn w) = 0 \<Longrightarrow> pump h w = Some w"
  by (subst pump.simps) simp

lemma pump_Some_zero:
  assumes "pump h w = Some w'" shows "pendingResponses (txn w') = 0"
  by (rule pump.raw_induct[where P = "\<lambda>h w w'. pendingResponses (txn w') = 0", OF _ assms])
     (auto split: if_splits)

text \<open>A handler that never changes the counter never lets a waiting transaction go.\<close>

lemma pump_stuck:
  assumes pos: "0 < pendingResponses (txn w)"
    and keep: "\<And>v. pendingResponses (txn (h v)) = pendingResponses (txn v)"
  shows "pump h w = None"
proof (rule ccontr)
  assume "pump h w \<noteq> None"
  then obtain w' where s: "pump h w = Some w'" by auto
  have "h = h \<longrightarrow> pendingResponses (txn w) = 0"
  proof (rule pump.raw_induct[where P = "\<lambda>h' w w'. h' = h \<longrightarrow> pendingResponses (txn w) = 0", OF _ s])
    fix pump' h' v y
    assume IH: "\<And>h' v y. pump' h' v = Some y \<Longrightarrow> h' = h \<longrightarrow> pendingResponses (txn v) = 0"
      and step: "(if 0 < pendingResponses (txn v) then pump' h' (h' v) else Some v) = Some y"
    show "h' = h \<longrightarrow> pendingResponses (txn v) = 0"
    proof
      assume e: "h' = h"
      show "pendingResponses (txn v) = 0"
      proof (cases "0 < pendingResponses (txn v)")
        case True
        with step have "pump' h' (h' v) = Some y" by simp
        from IH[OF this] e have "pendingResponses (txn (h v)) = 0" by simp
        then show ?thesis by (simp add: keep)
      next
        case False
        then show ?thesis by simp
      qed
    qed
  qed
  with pos show False by simp
qed

section \<open>Small facts about the state updates\<close>

lemma abort_lock_send: "abort_lock (txn (send P c p w)) = abort_lock (txn w)"
  by (simp add: send_def)

lemma abort_lock_inc_pending: "abort_lock (txn (inc_pending w)) = abort_lock (txn w)"
  by (simp add: inc_pending_def)

lemma abort_lock_store_meta: "abort_lock (txn (store_meta r a w)) = abort_lock (txn w)"
  by (simp add: store_meta_def)

lemma abort_lock_set_abort_lock: "abort_lock (txn (set_abort_lock w))"
  by (simp add: set_abort_lock_def)

lemma pending_send_inc:
  "pendingResponses (txn (send P c p (inc_pending w))) = pendingResponses (txn w) + 1"
  by (simp add: send_def inc_pending_def)

lemma pending_store_meta: "pendingResponses (txn (store_meta r a w)) = pendingResponses (txn w)"
  by (simp add: store_meta_def)

lemma messages_send:
  "c < length (messages w) \<Longrightarrow> messages (send P c p w) ! c = messages w ! c @ [p]"
  by (simp add: send_def)

lemma messages_inc_pending: "messages (inc_pending w) = messages w"
  by (simp add: inc_pending_def)

lemma keep_ok_Inr: "keep_ok k r = Inr (ks, w) \<Longrightarrow> \<exists>ks'. r = Inr (ks', w) \<and> ks = k # ks'"
  by (cases r) (auto simp: keep_ok_def keep_def)

section \<open>Locking the write set\<close>

text \<open>When the loop sets \<^verbatim>\<open>abort_lock\<close>, it does so at one locally mastered key, whose lock
  failed or whose write timestamp moved since the read, and it leaves every later key as it
  was.\<close>

lemma lock_loop_abort_split:
  assumes "lock_loop P rs i ws w = Inr (ws', w')" "\<not> abort_lock (txn w)" "abort_lock (txn w')"
  shows "\<exists>pre pre' wk wk' post w1.
           ws = pre @ wk # post \<and> ws' = pre' @ wk' # post \<and> length pre' = length pre
           \<and> has_master_partition P (partition_id wk) \<and> \<not> abort_lock (txn w1)
           \<and> lock_loop P rs (i + length pre) (wk # post) w1 = Inr (wk' # post, w')
           \<and> (\<not> fst (snd (lock (meta w1 (row_of wk))))
               \<or> (\<exists>rk. get_read_key rs (key wk) = Some rk
                       \<and> get_wts (fst (lock (meta w1 (row_of wk)))) \<noteq> get_wts (tid rk)))"
  using assms
proof (induction ws arbitrary: i w ws')
  case Nil
  then show ?case by simp
next
  case (Cons k ks)
  show ?case
  proof (cases "has_master_partition P (partition_id k)")
    case False
    let ?w1 = "send P (master_coordinator P (partition_id k))
                (LOCK_REQ (table_id k) (partition_id k) (key k) i) (inc_pending w)"
    from Cons.prems(1) False have "keep_ok k (lock_loop P rs (Suc i) ks ?w1) = Inr (ws', w')"
      by simp
    then obtain ks' where r: "lock_loop P rs (Suc i) ks ?w1 = Inr (ks', w')" and ws': "ws' = k # ks'"
      by (auto dest: keep_ok_Inr)
    have na: "\<not> abort_lock (txn ?w1)"
      using Cons.prems(2) by (simp add: abort_lock_send abort_lock_inc_pending)
    from Cons.IH[OF r na Cons.prems(3)] obtain pre pre' wk wk' post w1 where
      d: "ks = pre @ wk # post" "ks' = pre' @ wk' # post" "length pre' = length pre"
         "has_master_partition P (partition_id wk)" "\<not> abort_lock (txn w1)"
         "lock_loop P rs (Suc i + length pre) (wk # post) w1 = Inr (wk' # post, w')"
         "\<not> fst (snd (lock (meta w1 (row_of wk))))
               \<or> (\<exists>rk. get_read_key rs (key wk) = Some rk
                       \<and> get_wts (fst (lock (meta w1 (row_of wk)))) \<noteq> get_wts (tid rk))"
      by blast
    show ?thesis
      apply (rule exI[of _ "k # pre"], rule exI[of _ "k # pre'"], rule exI[of _ wk],
             rule exI[of _ wk'], rule exI[of _ post], rule exI[of _ w1])
      using d ws' by simp
  next
    case True
    obtain latestTid success a' where l: "lock (meta w (row_of k)) = (latestTid, success, a')"
      by (cases "lock (meta w (row_of k))") auto
    show ?thesis
    proof (cases success)
      case False
      with Cons.prems(1) True l have "ws' = k # ks" "w' = set_abort_lock w" by auto
      then show ?thesis
        apply -
        apply (rule exI[of _ "[]"], rule exI[of _ "[]"], rule exI[of _ k],
             rule exI[of _ k], rule exI[of _ ks], rule exI[of _ w])
        using Cons.prems True l False by simp
    next
      case succ: True
      from Cons.prems(1) True l succ obtain rk where g: "get_read_key rs (key k) = Some rk"
        by (cases "get_read_key rs (key k)") auto
      let ?k' = "k\<lparr>write_lock_bit := True, tid := latestTid\<rparr>"
      let ?w1 = "store_meta (row_of k) a' w"
      show ?thesis
      proof (cases "get_wts latestTid \<noteq> get_wts (tid rk)")
        case True
        with Cons.prems(1) \<open>has_master_partition P (partition_id k)\<close> l succ g
        have "ws' = ?k' # ks" "w' = set_abort_lock ?w1" by auto
        then show ?thesis
          apply -
          apply (rule exI[of _ "[]"], rule exI[of _ "[]"], rule exI[of _ k],
             rule exI[of _ ?k'], rule exI[of _ ks], rule exI[of _ w])
          using Cons.prems \<open>has_master_partition P (partition_id k)\<close> l succ g True by simp
      next
        case False
        with Cons.prems(1) \<open>has_master_partition P (partition_id k)\<close> l succ g
        have "keep_ok ?k' (lock_loop P rs (Suc i) ks ?w1) = Inr (ws', w')" by simp
        then obtain ks' where r: "lock_loop P rs (Suc i) ks ?w1 = Inr (ks', w')" and ws': "ws' = ?k' # ks'"
          by (auto dest: keep_ok_Inr)
        have na: "\<not> abort_lock (txn ?w1)"
          using Cons.prems(2) by (simp add: abort_lock_store_meta)
        from Cons.IH[OF r na Cons.prems(3)] obtain pre pre' wk wk' post w1 where
          d: "ks = pre @ wk # post" "ks' = pre' @ wk' # post" "length pre' = length pre"
           "has_master_partition P (partition_id wk)" "\<not> abort_lock (txn w1)"
           "lock_loop P rs (Suc i + length pre) (wk # post) w1 = Inr (wk' # post, w')"
           "\<not> fst (snd (lock (meta w1 (row_of wk))))
               \<or> (\<exists>rk. get_read_key rs (key wk) = Some rk
                       \<and> get_wts (fst (lock (meta w1 (row_of wk)))) \<noteq> get_wts (tid rk))"
          by blast
        show ?thesis
          apply (rule exI[of _ "k # pre"], rule exI[of _ "?k' # pre'"], rule exI[of _ wk],
             rule exI[of _ wk'], rule exI[of _ post], rule exI[of _ w1])
          using d ws' by simp
      qed
    qed
  qed
qed

text \<open>When the loop ends without \<^verbatim>\<open>abort_lock\<close>, it has visited every key: the local ones
  carry the lock bit, the remote ones are unchanged and each has added one pending
  response.\<close>

lemma lock_loop_no_abort:
  assumes "lock_loop P rs i ws w = Inr (ws', w')" "\<not> abort_lock (txn w')"
  shows "length ws' = length ws
         \<and> pendingResponses (txn w') =
             pendingResponses (txn w) + length (filter (\<lambda>k. \<not> has_master_partition P (partition_id k)) ws)
         \<and> (\<forall>j<length ws. if has_master_partition P (partition_id (ws ! j))
                            then write_lock_bit (ws' ! j) else ws' ! j = ws ! j)"
  using assms
proof (induction ws arbitrary: i w ws')
  case Nil
  then show ?case by simp
next
  case (Cons k ks)
  show ?case
  proof (cases "has_master_partition P (partition_id k)")
    case False
    let ?w1 = "send P (master_coordinator P (partition_id k))
                (LOCK_REQ (table_id k) (partition_id k) (key k) i) (inc_pending w)"
    from Cons.prems(1) False have "keep_ok k (lock_loop P rs (Suc i) ks ?w1) = Inr (ws', w')"
      by simp
    then obtain ks' where r: "lock_loop P rs (Suc i) ks ?w1 = Inr (ks', w')" and ws': "ws' = k # ks'"
      by (auto dest: keep_ok_Inr)
    from Cons.IH[OF r Cons.prems(2)] False ws' show ?thesis
      by (auto simp: pending_send_inc nth_Cons split: nat.splits)
  next
    case True
    obtain latestTid success a' where l: "lock (meta w (row_of k)) = (latestTid, success, a')"
      by (cases "lock (meta w (row_of k))") auto
    have succ: success
    proof (rule ccontr)
      assume "\<not> success"
      with Cons.prems(1) True l have "w' = set_abort_lock w" by auto
      with Cons.prems(2) show False by (simp add: abort_lock_set_abort_lock)
    qed
    from Cons.prems(1) True l succ obtain rk where g: "get_read_key rs (key k) = Some rk"
      by (cases "get_read_key rs (key k)") auto
    let ?k' = "k\<lparr>write_lock_bit := True, tid := latestTid\<rparr>"
    let ?w1 = "store_meta (row_of k) a' w"
    have same: "get_wts latestTid = get_wts (tid rk)"
    proof (rule ccontr)
      assume "get_wts latestTid \<noteq> get_wts (tid rk)"
      with Cons.prems(1) True l succ g have "w' = set_abort_lock ?w1" by auto
      with Cons.prems(2) show False by (simp add: abort_lock_set_abort_lock)
    qed
    with Cons.prems(1) True l succ g
    have "keep_ok ?k' (lock_loop P rs (Suc i) ks ?w1) = Inr (ws', w')" by simp
    then obtain ks' where r: "lock_loop P rs (Suc i) ks ?w1 = Inr (ks', w')" and ws': "ws' = ?k' # ks'"
      by (auto dest: keep_ok_Inr)
    from Cons.IH[OF r Cons.prems(2)] True ws' show ?thesis
      by (auto simp: pending_store_meta nth_Cons split: nat.splits)
  qed
qed

text \<open>
  Claim C5. In \<^verbatim>\<open>lock_write_set\<close>, at a locally mastered write key: when the lock fails,
  \<^verbatim>\<open>abort_lock\<close> is set and the loop stops (the key and all later keys are unchanged, no
  lock bit is set); when the lock succeeds and the read set holds the key but the write
  timestamp of the locked word differs from the one captured at the read, the key gets the
  lock bit and the locked tid, \<^verbatim>\<open>abort_lock\<close> is set and the loop stops; when the timestamps
  agree the loop goes on. At a remote key the loop appends a \<^verbatim>\<open>LOCK\<close> piece with the key's
  index to the message for the master coordinator, adds one to \<^verbatim>\<open>pendingResponses\<close> and
  goes on. When \<^verbatim>\<open>lock_write_set\<close> returns, it returns the value of \<^verbatim>\<open>abort_lock\<close>, and no
  response is pending. Two conjuncts are about the whole loop: \<^verbatim>\<open>abort_lock\<close> is newly set
  only at a local key whose lock failed or whose write timestamp moved, with all later keys
  untouched; and without \<^verbatim>\<open>abort_lock\<close> every key was visited. The last conjunct is
  \<^verbatim>\<open>lock_write_set\<close> as a whole: it runs the loop from index 0 over the write set of the
  transaction, looking the keys up in its read set; a blind write is the error; otherwise
  it stores the write set as the loop leaves it, flushes the messages, waits until no
  response is pending and returns \<^verbatim>\<open>abort_lock\<close>.
\<close>

theorem lock_write_set_locks:
  assumes l: "lock (meta w (row_of wk)) = (latestTid, success, a')"
  shows
  "(has_master_partition P (partition_id wk) \<and> \<not> success \<longrightarrow>
      lock_loop P rs i (wk # rest) w = Inr (wk # rest, set_abort_lock w)
      \<and> abort_lock (txn (set_abort_lock w)))
   \<and> (has_master_partition P (partition_id wk) \<and> success
        \<and> get_read_key rs (key wk) = Some rk \<and> get_wts latestTid \<noteq> get_wts (tid rk) \<longrightarrow>
      lock_loop P rs i (wk # rest) w =
        Inr (wk\<lparr>write_lock_bit := True, tid := latestTid\<rparr> # rest,
             set_abort_lock (store_meta (row_of wk) a' w))
      \<and> abort_lock (txn (set_abort_lock (store_meta (row_of wk) a' w))))
   \<and> (has_master_partition P (partition_id wk) \<and> success
        \<and> get_read_key rs (key wk) = Some rk \<and> get_wts latestTid = get_wts (tid rk) \<longrightarrow>
      lock_loop P rs i (wk # rest) w =
        keep_ok (wk\<lparr>write_lock_bit := True, tid := latestTid\<rparr>)
          (lock_loop P rs (Suc i) rest (store_meta (row_of wk) a' w)))
   \<and> (\<not> has_master_partition P (partition_id wk) \<longrightarrow>
      (let c = master_coordinator P (partition_id wk);
           m = LOCK_REQ (table_id wk) (partition_id wk) (key wk) i;
           w1 = send P c m (inc_pending w)
       in lock_loop P rs i (wk # rest) w = keep_ok wk (lock_loop P rs (Suc i) rest w1)
          \<and> pendingResponses (txn w1) = pendingResponses (txn w) + 1
          \<and> (c < length (messages w) \<longrightarrow> messages w1 ! c = messages w ! c @ [m])))
   \<and> (lock_write_set P h w0 = Some (Inr (b, w2)) \<longrightarrow>
        b = abort_lock (txn w2) \<and> pendingResponses (txn w2) = 0)
   \<and> (lock_loop P rs i ws wi = Inr (ws', wl) \<and> \<not> abort_lock (txn wi) \<and> abort_lock (txn wl) \<longrightarrow>
        (\<exists>pre pre' k k' post w1.
           ws = pre @ k # post \<and> ws' = pre' @ k' # post \<and> length pre' = length pre
           \<and> has_master_partition P (partition_id k) \<and> \<not> abort_lock (txn w1)
           \<and> lock_loop P rs (i + length pre) (k # post) w1 = Inr (k' # post, wl)
           \<and> (\<not> fst (snd (lock (meta w1 (row_of k))))
               \<or> (\<exists>rk. get_read_key rs (key k) = Some rk
                       \<and> get_wts (fst (lock (meta w1 (row_of k)))) \<noteq> get_wts (tid rk)))))
   \<and> (lock_loop P rs i ws wi = Inr (ws', wl) \<and> \<not> abort_lock (txn wl) \<longrightarrow>
        length ws' = length ws
        \<and> pendingResponses (txn wl) =
             pendingResponses (txn wi)
             + length (filter (\<lambda>k. \<not> has_master_partition P (partition_id k)) ws)
        \<and> (\<forall>j<length ws. if has_master_partition P (partition_id (ws ! j))
                            then write_lock_bit (ws' ! j) else ws' ! j = ws ! j))
   \<and> lock_write_set P h w0 =
        (case lock_loop P (readSet (txn w0)) 0 (writeSet (txn w0)) w0 of
           Inl e \<Rightarrow> Some (Inl e)
         | Inr (ws1, w1) \<Rightarrow>
             map_option (\<lambda>w2. Inr (abort_lock (txn w2), w2))
               (pump h (flush_messages P (w1\<lparr>txn := (txn w1)\<lparr>writeSet := ws1\<rparr>\<rparr>))))"
proof -
  have A: "has_master_partition P (partition_id wk) \<and> \<not> success \<longrightarrow>
      lock_loop P rs i (wk # rest) w = Inr (wk # rest, set_abort_lock w)
      \<and> abort_lock (txn (set_abort_lock w))"
    using l by (simp add: abort_lock_set_abort_lock)
  have B: "has_master_partition P (partition_id wk) \<and> success
        \<and> get_read_key rs (key wk) = Some rk \<and> get_wts latestTid \<noteq> get_wts (tid rk) \<longrightarrow>
      lock_loop P rs i (wk # rest) w =
        Inr (wk\<lparr>write_lock_bit := True, tid := latestTid\<rparr> # rest,
             set_abort_lock (store_meta (row_of wk) a' w))
      \<and> abort_lock (txn (set_abort_lock (store_meta (row_of wk) a' w)))"
    using l by (simp add: abort_lock_set_abort_lock)
  have C: "has_master_partition P (partition_id wk) \<and> success
        \<and> get_read_key rs (key wk) = Some rk \<and> get_wts latestTid = get_wts (tid rk) \<longrightarrow>
      lock_loop P rs i (wk # rest) w =
        keep_ok (wk\<lparr>write_lock_bit := True, tid := latestTid\<rparr>)
          (lock_loop P rs (Suc i) rest (store_meta (row_of wk) a' w))"
    using l by simp
  have D: "\<not> has_master_partition P (partition_id wk) \<longrightarrow>
      (let c = master_coordinator P (partition_id wk);
           m = LOCK_REQ (table_id wk) (partition_id wk) (key wk) i;
           w1 = send P c m (inc_pending w)
       in lock_loop P rs i (wk # rest) w = keep_ok wk (lock_loop P rs (Suc i) rest w1)
          \<and> pendingResponses (txn w1) = pendingResponses (txn w) + 1
          \<and> (c < length (messages w) \<longrightarrow> messages w1 ! c = messages w ! c @ [m]))"
    by (simp add: Let_def pending_send_inc messages_send messages_inc_pending)
  have E: "lock_write_set P h w0 = Some (Inr (b, w2)) \<longrightarrow>
        b = abort_lock (txn w2) \<and> pendingResponses (txn w2) = 0"
    by (auto simp: lock_write_set_def sync_messages_def Let_def
             split: sum.splits prod.splits option.splits dest: pump_Some_zero)
  have F: "lock_loop P rs i ws wi = Inr (ws', wl) \<and> \<not> abort_lock (txn wi) \<and> abort_lock (txn wl) \<longrightarrow>
        (\<exists>pre pre' k k' post w1.
           ws = pre @ k # post \<and> ws' = pre' @ k' # post \<and> length pre' = length pre
           \<and> has_master_partition P (partition_id k) \<and> \<not> abort_lock (txn w1)
           \<and> lock_loop P rs (i + length pre) (k # post) w1 = Inr (k' # post, wl)
           \<and> (\<not> fst (snd (lock (meta w1 (row_of k))))
               \<or> (\<exists>rk. get_read_key rs (key k) = Some rk
                       \<and> get_wts (fst (lock (meta w1 (row_of k)))) \<noteq> get_wts (tid rk))))"
    using lock_loop_abort_split[of P rs i ws wi ws' wl] by blast
  have G: "lock_loop P rs i ws wi = Inr (ws', wl) \<and> \<not> abort_lock (txn wl) \<longrightarrow>
        length ws' = length ws
        \<and> pendingResponses (txn wl) =
             pendingResponses (txn wi)
             + length (filter (\<lambda>k. \<not> has_master_partition P (partition_id k)) ws)
        \<and> (\<forall>j<length ws. if has_master_partition P (partition_id (ws ! j))
                            then write_lock_bit (ws' ! j) else ws' ! j = ws ! j)"
    using lock_loop_no_abort[of P rs i ws wi ws' wl] by blast
  have H: "lock_write_set P h w0 =
        (case lock_loop P (readSet (txn w0)) 0 (writeSet (txn w0)) w0 of
           Inl e \<Rightarrow> Some (Inl e)
         | Inr (ws1, w1) \<Rightarrow>
             map_option (\<lambda>w2. Inr (abort_lock (txn w2), w2))
               (pump h (flush_messages P (w1\<lparr>txn := (txn w1)\<lparr>writeSet := ws1\<rparr>\<rparr>))))"
    by (simp add: lock_write_set_def sync_messages_def Let_def
          split: sum.splits prod.splits option.splits)
  show ?thesis
    by (rule conjI[OF A conjI[OF B conjI[OF C conjI[OF D conjI[OF E conjI[OF F conjI[OF G H]]]]]]])
qed

theorem lock_write_set_locks_witness:
  "lock_loop P0 two_reads 0 [new_RWKey\<lparr>key := 12\<rparr>]
      (world_of (txn_of two_reads [new_RWKey\<lparr>key := 12\<rparr>]) (\<lambda>r. set_bit 63 (tid_of 8 0)))
    = Inr ([new_RWKey\<lparr>key := 12\<rparr>],
           set_abort_lock (world_of (txn_of two_reads [new_RWKey\<lparr>key := 12\<rparr>])
                             (\<lambda>r. set_bit 63 (tid_of 8 0))))
   \<and> lock_loop P0 two_reads 0 [new_RWKey\<lparr>key := 11\<rparr>]
      (world_of (txn_of two_reads [new_RWKey\<lparr>key := 11\<rparr>]) (\<lambda>r. tid_of 6 0))
    = Inr ([new_RWKey\<lparr>key := 11, write_lock_bit := True, tid := tid_of 6 0\<rparr>],
           set_abort_lock (store_meta (0, 0, 11) (set_bit 63 (tid_of 6 0))
              (world_of (txn_of two_reads [new_RWKey\<lparr>key := 11\<rparr>]) (\<lambda>r. tid_of 6 0))))
   \<and> pendingResponses (txn (send P0 1 (LOCK_REQ 0 1 11 0)
        (inc_pending (world_of (txn_of two_reads [new_RWKey\<lparr>key := 11, partition_id := 1\<rparr>])
           (\<lambda>r. tid_of 5 0))))) = 1
   \<and> (\<exists>w2. lock_write_set P0 answer_all
        (world_of (txn_of two_reads [new_RWKey\<lparr>key := 11, partition_id := 1\<rparr>]) (\<lambda>r. tid_of 5 0))
          = Some (Inr (False, w2))
        \<and> \<not> abort_lock (txn w2) \<and> pendingResponses (txn w2) = 0)
   \<and> map_option (map_sum id fst) (lock_write_set P0 id
        (world_of (txn_of two_reads [new_RWKey\<lparr>key := 12\<rparr>]) (\<lambda>r. set_bit 63 (tid_of 8 0))))
       = Some (Inr True)
   \<and> map_option (map_sum id (\<lambda>r. (fst r, out_queue (snd r), writeSet (txn (snd r)))))
        (lock_write_set P0 answer_all
           (world_of (txn_of two_reads [new_RWKey\<lparr>key := 11, partition_id := 1\<rparr>])
              (\<lambda>r. tid_of 5 0)))
       = Some (Inr (False, [(1, [LOCK_REQ 0 1 11 0])], [new_RWKey\<lparr>key := 11, partition_id := 1\<rparr>]))"
proof -
  let ?wA = "world_of (txn_of two_reads [new_RWKey\<lparr>key := 12\<rparr>]) (\<lambda>r. set_bit 63 (tid_of 8 0))"
  let ?wB = "world_of (txn_of two_reads [new_RWKey\<lparr>key := 11\<rparr>]) (\<lambda>r. tid_of 6 0)"
  let ?wC = "world_of (txn_of two_reads [new_RWKey\<lparr>key := 11, partition_id := 1\<rparr>]) (\<lambda>r. tid_of 5 0)"
  have a: "lock_loop P0 two_reads 0 [new_RWKey\<lparr>key := 12\<rparr>] ?wA
             = Inr ([new_RWKey\<lparr>key := 12\<rparr>], set_abort_lock ?wA)"
    using lock_write_set_locks [where w = ?wA and wk = "new_RWKey\<lparr>key := 12\<rparr>"
        and latestTid = "set_bit 63 (tid_of 8 0)" and success = False
        and a' = "set_bit 63 (tid_of 8 0)" and P = P0 and rs = two_reads and i = 0 and rest = "[]",
        THEN conjunct1]
    by (simp add: world_of_def lock_def is_locked_set_bit has_master_partition_def P0_def
          new_RWKey_def)
  have b: "lock_loop P0 two_reads 0 [new_RWKey\<lparr>key := 11\<rparr>] ?wB
    = Inr ([new_RWKey\<lparr>key := 11, write_lock_bit := True, tid := tid_of 6 0\<rparr>],
           set_abort_lock (store_meta (0, 0, 11) (set_bit 63 (tid_of 6 0)) ?wB))"
    using lock_write_set_locks [where w = ?wB and wk = "new_RWKey\<lparr>key := 11\<rparr>"
        and latestTid = "tid_of 6 0" and success = True
        and a' = "set_bit 63 (tid_of 6 0)" and P = P0 and rs = two_reads and i = 0 and rest = "[]"
        and rk = "new_RWKey\<lparr>key := 11, tid := tid_of 5 0\<rparr>", THEN conjunct2, THEN conjunct1]
    by (simp add: world_of_def lock_def is_locked_tid_of has_master_partition_def P0_def
          new_RWKey_def get_read_key_def two_reads_def get_wts_tid_of row_of_def)
  have c: "pendingResponses (txn (send P0 1 (LOCK_REQ 0 1 11 0) (inc_pending ?wC))) = 1"
    using lock_write_set_locks [where w = ?wC and wk = "new_RWKey\<lparr>key := 11, partition_id := 1\<rparr>"
        and latestTid = "tid_of 5 0" and success = True
        and a' = "set_bit 63 (tid_of 5 0)" and P = P0 and rs = two_reads and i = 0 and rest = "[]",
        THEN conjunct2, THEN conjunct2, THEN conjunct2, THEN conjunct1]
    by (simp add: world_of_def lock_def is_locked_tid_of has_master_partition_def P0_def
          new_RWKey_def txn_of_def Let_def)
  obtain r where r: "lock_write_set P0 answer_all ?wC = Some (Inr (False, r))"
    by (simp add: lock_write_set_def world_of_def txn_of_def new_RWKey_def
          has_master_partition_def P0_def keep_ok_def keep_def sync_messages_def
          flush_messages_def send_def inc_pending_def pump.simps answer_all_def)
  have d: "\<not> abort_lock (txn r) \<and> pendingResponses (txn r) = 0"
    using lock_write_set_locks [where w = ?wC and wk = "new_RWKey\<lparr>key := 11, partition_id := 1\<rparr>"
        and latestTid = "tid_of 5 0" and success = True
        and a' = "set_bit 63 (tid_of 5 0)" and P = P0 and h = answer_all and ?w0.0 = ?wC
        and b = False and ?w2.0 = r,
        THEN conjunct2, THEN conjunct2, THEN conjunct2, THEN conjunct2, THEN conjunct1] r
    by (simp add: world_of_def lock_def is_locked_tid_of)
  have l: "lock (meta ?wC (row_of (new_RWKey\<lparr>key := 11, partition_id := 1\<rparr>)))
             = (tid_of 5 0, True, set_bit 63 (tid_of 5 0))"
    by (simp add: world_of_def lock_def is_locked_tid_of)
  note H = lock_write_set_locks [where w = ?wC and wk = "new_RWKey\<lparr>key := 11, partition_id := 1\<rparr>"
        and latestTid = "tid_of 5 0" and success = True
        and a' = "set_bit 63 (tid_of 5 0)" and P = P0, OF l,
        THEN conjunct2, THEN conjunct2, THEN conjunct2, THEN conjunct2, THEN conjunct2,
        THEN conjunct2, THEN conjunct2]
  have e: "map_option (map_sum id fst) (lock_write_set P0 id ?wA) = Some (Inr True)"
    by (subst H)
       (simp add: a[unfolded lock_loop.simps] world_of_def txn_of_def lock_def is_locked_set_bit
          has_master_partition_def P0_def new_RWKey_def set_abort_lock_def flush_messages_def
          pump_done)
  have f: "map_option (map_sum id (\<lambda>r. (fst r, out_queue (snd r), writeSet (txn (snd r)))))
        (lock_write_set P0 answer_all ?wC)
       = Some (Inr (False, [(1, [LOCK_REQ 0 1 11 0])], [new_RWKey\<lparr>key := 11, partition_id := 1\<rparr>]))"
    by (subst H)
       (simp add: world_of_def txn_of_def new_RWKey_def
          has_master_partition_def P0_def keep_ok_def keep_def
          flush_messages_def send_def inc_pending_def pump.simps answer_all_def)
  from r d have g: "\<exists>w2. lock_write_set P0 answer_all ?wC = Some (Inr (False, w2))
        \<and> \<not> abort_lock (txn w2) \<and> pendingResponses (txn w2) = 0"
    by blast
  show ?thesis
    by (rule conjI[OF a conjI[OF b conjI[OF c conjI[OF g conjI[OF e f]]]]])
qed

section \<open>The abort path\<close>

lemma flush_from_queue:
  "snd (flush_from self i ms oq) = oq @ filter (\<lambda>(c, m). c \<noteq> self \<and> m \<noteq> []) (enumerate i ms)"
  by (induction ms arbitrary: i oq) (auto simp: split_beta Let_def)

lemma flush_from_messages:
  "fst (flush_from self i ms oq) = map (\<lambda>(c, m). if c = self then m else []) (enumerate i ms)"
  by (induction ms arbitrary: i oq) (auto simp: split_beta Let_def)

lemma out_queue_flush_messages:
  "out_queue (flush_messages P w) =
     out_queue w @ filter (\<lambda>(c, m). c \<noteq> self_id P \<and> m \<noteq> []) (enumerate 0 (messages w))"
  using flush_from_queue[of "self_id P" 0 "messages w" "out_queue w"]
  by (simp add: flush_messages_def split_beta)

lemma messages_flush_messages:
  "messages (flush_messages P w) =
     map (\<lambda>(c, m). if c = self_id P then m else []) (enumerate 0 (messages w))"
  using flush_from_messages[of "self_id P" 0 "messages w" "out_queue w"]
  by (simp add: flush_messages_def split_beta)

lemma txn_flush_messages: "txn (flush_messages P w) = txn w"
  by (simp add: flush_messages_def split_beta)

lemma meta_flush_messages: "meta (flush_messages P w) = meta w"
  by (simp add: flush_messages_def split_beta)

lemma vals_flush_messages: "vals (flush_messages P w) = vals w"
  by (simp add: flush_messages_def split_beta)

lemma unlock_unlock: "unlock (unlock a) = unlock a"
  unfolding unlock_def by (rule bit_word_eqI) (auto simp: bit_simps)

lemma meta_abort_loop:
  "meta (abort_loop P ws w) r =
     (if \<exists>k\<in>set ws. write_lock_bit k \<and> has_master_partition P (partition_id k) \<and> row_of k = r
      then unlock (meta w r) else meta w r)"
proof (induction ws arbitrary: w)
  case Nil
  show ?case by simp
next
  case (Cons k ks)
  show ?case
    by (auto simp: Cons.IH store_meta_def send_def unlock_unlock)
qed

lemma length_messages_abort_loop: "length (messages (abort_loop P ws w)) = length (messages w)"
  by (induction ws arbitrary: w) (auto simp: store_meta_def send_def)

lemma nth_messages_abort_loop:
  "c < length (messages w) \<Longrightarrow>
   messages (abort_loop P ws w) ! c =
     messages w ! c @
       map (\<lambda>k. ABORT_REQ (table_id k) (partition_id k) (key k))
         (filter (\<lambda>k. write_lock_bit k \<and> \<not> has_master_partition P (partition_id k)
                       \<and> master_coordinator P (partition_id k) = c) ws)"
proof (induction ws arbitrary: w)
  case Nil
  show ?case by simp
next
  case (Cons k ks)
  then show ?case
    by (auto simp: store_meta_def send_def nth_list_update)
qed

lemma enumerate_messages_abort_loop:
  "enumerate 0 (messages (abort_loop P ws w)) =
     map (\<lambda>(c, m). (c, m @ map (\<lambda>k. ABORT_REQ (table_id k) (partition_id k) (key k))
         (filter (\<lambda>k. write_lock_bit k \<and> \<not> has_master_partition P (partition_id k)
                       \<and> master_coordinator P (partition_id k) = c) ws)))
       (enumerate 0 (messages w))"
  by (rule nth_equalityI)
     (simp_all add: length_messages_abort_loop nth_enumerate_eq nth_messages_abort_loop)

lemma txn_abort_loop:
  "(txn (abort_loop P ws w))\<lparr>network_size := n\<rparr> = (txn w)\<lparr>network_size := n\<rparr>"
  by (induction ws arbitrary: w) (auto simp: store_meta_def send_def)

lemma vals_abort_loop: "vals (abort_loop P ws w) = vals w"
  by (induction ws arbitrary: w) (auto simp: store_meta_def send_def)

lemma out_queue_abort_loop: "out_queue (abort_loop P ws w) = out_queue w"
  by (induction ws arbitrary: w) (auto simp: store_meta_def send_def)


lemma no_abort_piece_for_self:
  "filter (\<lambda>k. write_lock_bit k \<and> \<not> has_master_partition P (partition_id k)
                 \<and> master_coordinator P (partition_id k) = self_id P) ws = []"
  by (induction ws) (auto simp: has_master_partition_def)

text \<open>
  Claim C4. \<^verbatim>\<open>abort\<close> returns whatever the remote request handler \<open>h\<close> would do: it flushes
  and does not wait. Afterwards the metadata word of a row is the unlocked old word when
  some write key with the lock bit names that row in a partition mastered here, and the old
  word otherwise; the outbound queue has received, for every other coordinator \<open>c\<close> whose
  message is not empty, that message followed by one \<^verbatim>\<open>ABORT\<close> piece for each write key with
  the lock bit whose partition is mastered by \<open>c\<close>, in write-set order; and the transaction
  (apart from the byte count \<^verbatim>\<open>network_size\<close>), hence its write set, its lock bits and its
  pending responses, and the values of all rows are unchanged. Keys without the lock bit
  add no unlock and no piece.
\<close>

theorem abort_releases_taken_locks:
  "abort P h w = Some (flush_messages P (abort_loop P (writeSet (txn w)) w))
   \<and> (let w' = flush_messages P (abort_loop P (writeSet (txn w)) w);
           aborts = (\<lambda>c. map (\<lambda>k. ABORT_REQ (table_id k) (partition_id k) (key k))
                      (filter (\<lambda>k. write_lock_bit k \<and> \<not> has_master_partition P (partition_id k)
                                    \<and> master_coordinator P (partition_id k) = c)
                         (writeSet (txn w))))
       in meta w' r =
            (if \<exists>k\<in>set (writeSet (txn w)).
                  write_lock_bit k \<and> has_master_partition P (partition_id k) \<and> row_of k = r
             then unlock (meta w r) else meta w r)
          \<and> out_queue w' =
              out_queue w @ filter (\<lambda>(c, m). c \<noteq> self_id P \<and> m \<noteq> [])
                               (map (\<lambda>(c, m). (c, m @ aborts c)) (enumerate 0 (messages w)))
          \<and> messages w' =
              map (\<lambda>(c, m). if c = self_id P then m else []) (enumerate 0 (messages w))
          \<and> (txn w')\<lparr>network_size := n\<rparr> = (txn w)\<lparr>network_size := n\<rparr>
          \<and> vals w' = vals w)"
proof -
  let ?w1 = "abort_loop P (writeSet (txn w)) w"
  let ?ab = "\<lambda>c. map (\<lambda>k. ABORT_REQ (table_id k) (partition_id k) (key k))
                      (filter (\<lambda>k. write_lock_bit k \<and> \<not> has_master_partition P (partition_id k)
                                    \<and> master_coordinator P (partition_id k) = c)
                         (writeSet (txn w)))"
  have ret: "abort P h w = Some (flush_messages P ?w1)"
    by (simp add: abort_def sync_messages_def)
  have m: "meta (flush_messages P ?w1) r =
            (if \<exists>k\<in>set (writeSet (txn w)).
                  write_lock_bit k \<and> has_master_partition P (partition_id k) \<and> row_of k = r
             then unlock (meta w r) else meta w r)"
    by (simp only: meta_flush_messages meta_abort_loop)
  have q: "out_queue (flush_messages P ?w1) =
              out_queue w @ filter (\<lambda>(c, m). c \<noteq> self_id P \<and> m \<noteq> [])
                               (map (\<lambda>(c, m). (c, m @ ?ab c)) (enumerate 0 (messages w)))"
    by (simp only: out_queue_flush_messages out_queue_abort_loop enumerate_messages_abort_loop)
  have "messages (flush_messages P ?w1) =
          map (\<lambda>(c, m). if c = self_id P then m else [])
            (map (\<lambda>(c, m). (c, m @ ?ab c)) (enumerate 0 (messages w)))"
    by (simp only: messages_flush_messages enumerate_messages_abort_loop)
  also have "\<dots> = map (\<lambda>(c, m). if c = self_id P then m else []) (enumerate 0 (messages w))"
    by (auto simp: no_abort_piece_for_self)
  finally have s: "messages (flush_messages P ?w1) =
      map (\<lambda>(c, m). if c = self_id P then m else []) (enumerate 0 (messages w))" .
  have t: "(txn (flush_messages P ?w1))\<lparr>network_size := n\<rparr> = (txn w)\<lparr>network_size := n\<rparr>"
    by (simp only: txn_flush_messages txn_abort_loop)
  have v: "vals (flush_messages P ?w1) = vals w"
    by (simp only: vals_flush_messages vals_abort_loop)
  from ret m q s t v show ?thesis by (simp only: Let_def)
qed


theorem abort_releases_taken_locks_witness:
  "abort P0 id (world_of (txn_of two_reads locked_writes) (\<lambda>r. set_bit 63 (tid_of 5 0)))
     = Some (flush_messages P0 (abort_loop P0 locked_writes
               (world_of (txn_of two_reads locked_writes) (\<lambda>r. set_bit 63 (tid_of 5 0)))))
   \<and> meta (flush_messages P0 (abort_loop P0 locked_writes
               (world_of (txn_of two_reads locked_writes) (\<lambda>r. set_bit 63 (tid_of 5 0))))) (0, 0, 11)
       = unlock (set_bit 63 (tid_of 5 0))
   \<and> meta (flush_messages P0 (abort_loop P0 locked_writes
               (world_of (txn_of two_reads locked_writes) (\<lambda>r. set_bit 63 (tid_of 5 0))))) (0, 0, 12)
       = set_bit 63 (tid_of 5 0)
   \<and> out_queue (flush_messages P0 (abort_loop P0 locked_writes
               (world_of (txn_of two_reads locked_writes) (\<lambda>r. set_bit 63 (tid_of 5 0)))))
       = [(1, [ABORT_REQ 0 1 13])]"
proof -
  let ?w = "world_of (txn_of two_reads locked_writes) (\<lambda>r. set_bit 63 (tid_of 5 0))"
  have ws: "writeSet (txn ?w) = locked_writes"
    by (simp add: world_of_def txn_of_def)
  note T = abort_releases_taken_locks [of P0 id ?w, unfolded ws Let_def]
  have a: "abort P0 id ?w = Some (flush_messages P0 (abort_loop P0 locked_writes ?w))"
    by (rule T[THEN conjunct1])
  have b: "meta (flush_messages P0 (abort_loop P0 locked_writes ?w)) (0, 0, 11)
             = unlock (set_bit 63 (tid_of 5 0))"
    by (subst T[THEN conjunct2, THEN conjunct1])
       (simp add: locked_writes_def new_RWKey_def row_of_def has_master_partition_def P0_def
          world_of_def)
  have c: "meta (flush_messages P0 (abort_loop P0 locked_writes ?w)) (0, 0, 12)
             = set_bit 63 (tid_of 5 0)"
    by (subst T[THEN conjunct2, THEN conjunct1])
       (simp add: locked_writes_def new_RWKey_def row_of_def has_master_partition_def P0_def
          world_of_def)
  have d: "out_queue (flush_messages P0 (abort_loop P0 locked_writes ?w)) = [(1, [ABORT_REQ 0 1 13])]"
    by (subst T[THEN conjunct2, THEN conjunct2, THEN conjunct1])
       (simp add: locked_writes_def new_RWKey_def has_master_partition_def P0_def
          world_of_def enumerate_eq_zip upt_rec)
  from a b c d show ?thesis by simp
qed

section \<open>Read validation\<close>

text \<open>Section 8.3 of the specification for the helper it describes: a successful
  \<open>validate_read_key\<close> has found the write timestamp of the captured tid, leaves it as it
  is, and leaves a read timestamp that covers the commit timestamp.\<close>

lemma validate_read_key_sound:
  assumes "validate_read_key a t c wr = (True, written, a')"
  shows "get_wts a = get_wts t \<and> c \<le> get_rts a' \<and> get_wts a' = get_wts a \<and> written = a'"
  using assms
  by (auto simp: validate_read_key_def Let_def get_wts_set_delta split: if_splits)





















section \<open>Writing, replicating and releasing\<close>

lemma txn_store_meta: "txn (store_meta r a w) = txn w"
  by (simp add: store_meta_def)

lemma txn_update_row: "txn (update_row r v w) = txn w"
  by (simp add: update_row_def)

lemma coordinator_id_send_inc:
  "coordinator_id (txn (send P c p (inc_pending w))) = coordinator_id (txn w)"
  by (simp add: send_def inc_pending_def)

lemma pending_send: "pendingResponses (txn (send P c p w)) = pendingResponses (txn w)"
  by (simp add: send_def)

lemma replicate_loop_pending:
  assumes "replicate_loop P c wk ks w = Some w1"
  shows "pendingResponses (txn w1) =
           pendingResponses (txn w)
           + length (filter (\<lambda>k. is_partition_replicated_on P (partition_id wk) k
                                \<and> k \<noteq> master_coordinator P (partition_id wk)
                                \<and> k \<noteq> coordinator_id (txn w)) ks)
         \<and> coordinator_id (txn w1) = coordinator_id (txn w)"
  using assms
proof (induction ks arbitrary: w)
  case Nil
  then show ?case by simp
next
  case (Cons k ks)
  show ?case
  proof (cases "is_partition_replicated_on P (partition_id wk) k
                \<and> k \<noteq> master_coordinator P (partition_id wk)")
    case False
    with Cons.prems have "replicate_loop P c wk ks w = Some w1" by (auto split: if_splits)
    from Cons.IH[OF this] False show ?thesis by auto
  next
    case rep: True
    show ?thesis
    proof (cases "k = coordinator_id (txn w)")
      case True
      with Cons.prems rep obtain last_tid a' where
        l: "lock_spin (meta w (row_of wk)) = Some (last_tid, a')"
        by (cases "lock_spin (meta w (row_of wk))") auto
      let ?w1 = "store_meta (row_of wk) (unlock_with_commit a' c)
                  (update_row (row_of wk) (val wk) (store_meta (row_of wk) a' w))"
      from Cons.prems rep True l have "replicate_loop P c wk ks ?w1 = Some w1" by simp
      from Cons.IH[OF this] rep True show ?thesis
        by (simp add: txn_store_meta txn_update_row)
    next
      case False
      let ?w1 = "send P k (REPLICATE_REQ (table_id wk) (partition_id wk) (key wk) (val wk) c)
                   (inc_pending w)"
      from Cons.prems rep False have "replicate_loop P c wk ks ?w1 = Some w1" by simp
      from Cons.IH[OF this] rep False show ?thesis
        by (simp add: pending_send_inc coordinator_id_send_inc)
    qed
  qed
qed

lemma write_loop_pending:
  assumes "write_loop P c ws w = Some w1"
  shows "pendingResponses (txn w1) =
           pendingResponses (txn w)
           + sum_list (map (\<lambda>wk. (if has_master_partition P (partition_id wk) then 0 else 1)
                + length (filter (\<lambda>k. is_partition_replicated_on P (partition_id wk) k
                                \<and> k \<noteq> master_coordinator P (partition_id wk)
                                \<and> k \<noteq> coordinator_id (txn w)) [0..<total_coordinators P])) ws)
         \<and> coordinator_id (txn w1) = coordinator_id (txn w)"
  using assms
proof (induction ws arbitrary: w)
  case Nil
  then show ?case by simp
next
  case (Cons wk ws)
  let ?w0 = "if has_master_partition P (partition_id wk)
              then update_row (row_of wk) (val wk) w
              else send P (master_coordinator P (partition_id wk))
                     (WRITE_REQ (table_id wk) (partition_id wk) (key wk) (val wk))
                     (inc_pending w)"
  from Cons.prems obtain w2 where
    r: "replicate_loop P c wk [0..<total_coordinators P] ?w0 = Some w2"
    and l: "write_loop P c ws w2 = Some w1"
    by (auto split: option.splits)
  have p0: "pendingResponses (txn ?w0) =
              pendingResponses (txn w) + (if has_master_partition P (partition_id wk) then 0 else 1)"
    and c0: "coordinator_id (txn ?w0) = coordinator_id (txn w)"
    by (simp_all add: txn_update_row pending_send_inc coordinator_id_send_inc)
  from replicate_loop_pending[OF r] Cons.IH[OF l] p0 c0 show ?case
    by simp
qed

lemma pending_release_loop:
  "pendingResponses (txn (release_loop P c ws w)) = pendingResponses (txn w)"
  by (induction ws arbitrary: w) (simp_all add: txn_store_meta txn_update_row pending_send)

lemma flush_nothing: "messages w = [[], []] \<Longrightarrow> flush_messages P w = w"
  by (simp add: flush_messages_def)

lemma lock_write_world:
  "lock_write_set P0 h write_world =
     Some (Inr (False, locked_world\<lparr>txn := (txn locked_world)\<lparr>commit_rts := 0, commit_wts := 0\<rparr>\<rparr>))"
  by (simp add: lock_write_set_def write_world_def locked_world_def world_of_def txn_of_def
        replicated_write_def locked_write_def new_RWKey_def has_master_partition_def P0_def
        row_of_def lock_def is_locked_tid_of get_read_key_def keep_ok_def keep_def
        store_meta_def sync_messages_def flush_messages_def pump_done fun_eq_iff)

lemma commit_ts_locked_world:
  "compute_commit_ts ((txn locked_world)\<lparr>commit_rts := 0, commit_wts := 0\<rparr>) = txn locked_world"
  by (simp add: compute_commit_ts_def locked_world_def world_of_def txn_of_def locked_write_def
        replicated_write_def new_RWKey_def get_wts_tid_of get_rts_tid_of Let_def)

lemma validate_locked_world:
  "validate_read_set validate_read_key P0 h locked_world = Some (True, locked_world)"
  by (simp add: validate_read_set_def locked_world_def world_of_def txn_of_def locked_write_def
        replicated_write_def new_RWKey_def keep_def sync_messages_def flush_messages_def pump_done)

lemma write_loop_locked_world:
  "write_loop P0 6 [locked_write] locked_world =
     Some (send P0 1 (REPLICATE_REQ 0 0 11 7 6)
             (inc_pending (update_row (0, 0, 11) 7 locked_world)))"
  by (simp add: locked_world_def world_of_def txn_of_def locked_write_def
        replicated_write_def new_RWKey_def has_master_partition_def P0_def row_of_def upt_rec
        txn_update_row)


lemma pending_after_write_loop:
  "pendingResponses (txn (send P0 c p (inc_pending (update_row r v locked_world)))) = 1"
  by (simp add: pending_send_inc txn_update_row locked_world_def world_of_def txn_of_def)

lemma write_sets_locked_world:
  "commit_wts (txn locked_world) = 6" "writeSet (txn locked_world) = [locked_write]"
  by (simp_all add: locked_world_def world_of_def txn_of_def)

text \<open>
  Claim C3, as stated, fails: \<^verbatim>\<open>write_and_replicate\<close> ends with \<^verbatim>\<open>sync_messages(txn)\<close>, whose
  \<^verbatim>\<open>wait_response\<close> defaults to true, and it has counted every \<^verbatim>\<open>WRITE\<close> and \<^verbatim>\<open>REPLICATE\<close>
  piece as a pending response. The transaction below locks and validates, sends one
  replication piece to coordinator 1 and then waits for the reply: with a handler that
  never delivers one, \<^verbatim>\<open>write_and_replicate\<close>, and with it \<^verbatim>\<open>commit\<close>, does not return.
\<close>

theorem commit_waits_for_replication_counterexample:
  "map_option (map_sum id fst) (lock_write_set P0 id write_world) = Some (Inr False)
   \<and> map_option fst (validate_read_set validate_read_key P0 id locked_world) = Some True
   \<and> map_option (\<lambda>w. pendingResponses (txn w)) (write_loop P0 6 [locked_write] locked_world) = Some 1
   \<and> map_option messages (write_loop P0 6 [locked_write] locked_world)
        = Some [[], [REPLICATE_REQ 0 0 11 7 6]]
   \<and> write_and_replicate P0 id locked_world = None
   \<and> commit validate_read_key P0 id write_world = None"
proof -
  have stuck: "pump id (flush_messages P0 (send P0 c p
             (inc_pending (update_row r v locked_world)))) = None" for c p r v
    by (rule pump_stuck) (simp_all add: txn_flush_messages pending_after_write_loop)
  have w: "write_and_replicate P0 id locked_world = None"
    unfolding write_and_replicate_def write_sets_locked_world write_loop_locked_world
    by (simp add: sync_messages_def stuck)
  have c: "commit validate_read_key P0 id write_world = None"
    by (simp add: commit_def lock_write_world commit_ts_locked_world validate_locked_world w)
  have m: "messages (send P0 (Suc 0) (REPLICATE_REQ 0 0 11 7 6)
             (inc_pending (update_row (0, 0, 11) 7 locked_world))) = [[], [REPLICATE_REQ 0 0 11 7 6]]"
    by (simp add: send_def inc_pending_def update_row_def locked_world_def world_of_def)
  show ?thesis
    unfolding write_loop_locked_world
    by (simp add: lock_write_world validate_locked_world pending_after_write_loop m w c)
qed

text \<open>
  Claim C3, amended. Only the release of the locks is fire-and-forget: \<^verbatim>\<open>release_lock\<close>
  returns after the flush whatever the handler does, and its loop adds no pending
  response. \<^verbatim>\<open>write_and_replicate\<close> adds one pending response for each \<^verbatim>\<open>WRITE\<close> piece (a
  write key mastered elsewhere) and each \<^verbatim>\<open>REPLICATE\<close> piece (a replica on a coordinator
  that is neither the master nor this one), flushes, and pumps the handler until the
  counter is zero: it does not return while a response is pending and the handler leaves
  the counter alone, and when it returns, and when \<^verbatim>\<open>commit\<close> returns true, no response
  is pending.
\<close>

theorem commit_waits_for_replication:
  "release_lock P h w =
     Some (flush_messages P (release_loop P (commit_wts (txn w)) (writeSet (txn w)) w))
   \<and> pendingResponses (txn (release_loop P c ws w)) = pendingResponses (txn w)
   \<and> (write_loop P c ws w = Some w1 \<longrightarrow>
        pendingResponses (txn w1) =
          pendingResponses (txn w)
          + sum_list (map (\<lambda>wk. (if has_master_partition P (partition_id wk) then 0 else 1)
              + length (filter (\<lambda>k. is_partition_replicated_on P (partition_id wk) k
                                    \<and> k \<noteq> master_coordinator P (partition_id wk)
                                    \<and> k \<noteq> coordinator_id (txn w)) [0..<total_coordinators P])) ws))
   \<and> (write_loop P (commit_wts (txn w)) (writeSet (txn w)) w = Some w1 \<longrightarrow>
        write_and_replicate P h w = pump h (flush_messages P w1))
   \<and> (write_loop P (commit_wts (txn w)) (writeSet (txn w)) w = Some w1
        \<and> 0 < pendingResponses (txn w1)
        \<and> (\<forall>v. pendingResponses (txn (h v)) = pendingResponses (txn v)) \<longrightarrow>
        write_and_replicate P h w = None)
   \<and> (write_and_replicate P h w = Some w2 \<longrightarrow> pendingResponses (txn w2) = 0)
   \<and> (commit V P h w = Some (Inr (True, w3)) \<longrightarrow> pendingResponses (txn w3) = 0)"
proof -
  have A: "release_lock P h w =
     Some (flush_messages P (release_loop P (commit_wts (txn w)) (writeSet (txn w)) w))"
    by (simp add: release_lock_def sync_messages_def)
  have B: "pendingResponses (txn (release_loop P c ws w)) = pendingResponses (txn w)"
    by (rule pending_release_loop)
  have C: "write_loop P c ws w = Some w1 \<longrightarrow>
        pendingResponses (txn w1) =
          pendingResponses (txn w)
          + sum_list (map (\<lambda>wk. (if has_master_partition P (partition_id wk) then 0 else 1)
              + length (filter (\<lambda>k. is_partition_replicated_on P (partition_id wk) k
                                    \<and> k \<noteq> master_coordinator P (partition_id wk)
                                    \<and> k \<noteq> coordinator_id (txn w)) [0..<total_coordinators P])) ws)"
    using write_loop_pending[of P c ws w w1] by blast
  have D: "write_loop P (commit_wts (txn w)) (writeSet (txn w)) w = Some w1 \<longrightarrow>
        write_and_replicate P h w = pump h (flush_messages P w1)"
    by (simp add: write_and_replicate_def sync_messages_def)
  have E: "write_loop P (commit_wts (txn w)) (writeSet (txn w)) w = Some w1
        \<and> 0 < pendingResponses (txn w1)
        \<and> (\<forall>v. pendingResponses (txn (h v)) = pendingResponses (txn v)) \<longrightarrow>
        write_and_replicate P h w = None"
  proof
    assume a: "write_loop P (commit_wts (txn w)) (writeSet (txn w)) w = Some w1
        \<and> 0 < pendingResponses (txn w1)
        \<and> (\<forall>v. pendingResponses (txn (h v)) = pendingResponses (txn v))"
    then have "pump h (flush_messages P w1) = None"
      by (intro pump_stuck) (simp_all add: txn_flush_messages)
    with a D show "write_and_replicate P h w = None" by simp
  qed
  have F: "write_and_replicate P h w = Some w2 \<longrightarrow> pendingResponses (txn w2) = 0"
    by (auto simp: write_and_replicate_def sync_messages_def
             split: option.splits dest: pump_Some_zero)
  have G: "commit V P h w = Some (Inr (True, w3)) \<longrightarrow> pendingResponses (txn w3) = 0"
  proof
    assume c: "commit V P h w = Some (Inr (True, w3))"
    then obtain w4 w5 where wr: "write_and_replicate P h w4 = Some w5"
      and rl: "release_lock P h w5 = Some w3"
      by (auto simp: commit_def split: option.splits sum.splits prod.splits if_splits)
    from wr have "pendingResponses (txn w5) = 0"
      by (auto simp: write_and_replicate_def sync_messages_def
             split: option.splits dest: pump_Some_zero)
    with rl show "pendingResponses (txn w3) = 0"
      by (auto simp: release_lock_def sync_messages_def txn_flush_messages pending_release_loop)
  qed
  from A B C D E F G show ?thesis by blast
qed


theorem commit_waits_for_replication_witness:
  "release_lock P0 id locked_world =
     Some (flush_messages P0 (release_loop P0 6 [locked_write] locked_world))
   \<and> write_and_replicate P0 id locked_world = None
   \<and> map_option (\<lambda>w. pendingResponses (txn w)) (write_and_replicate P0 answer_all locked_world)
       = Some 0"
proof -
  let ?w1 = "send P0 1 (REPLICATE_REQ 0 0 11 7 6)
               (inc_pending (update_row (0, 0, 11) 7 locked_world))"
  have wl: "write_loop P0 (commit_wts (txn locked_world)) (writeSet (txn locked_world)) locked_world
              = Some ?w1"
    unfolding write_sets_locked_world by (rule write_loop_locked_world)
  have pos: "0 < pendingResponses (txn ?w1)"
    by (simp only: pending_after_write_loop)
  note T = commit_waits_for_replication [where P = P0 and w = locked_world and ?w1.0 = ?w1]
  have a: "release_lock P0 id locked_world =
     Some (flush_messages P0 (release_loop P0 6 [locked_write] locked_world))"
    using T [where h = id, THEN conjunct1] unfolding write_sets_locked_world .
  have b: "write_and_replicate P0 id locked_world = None"
    using T [where h = id, THEN conjunct2, THEN conjunct2, THEN conjunct2, THEN conjunct2,
             THEN conjunct1] wl pos
    by simp
  have d: "write_and_replicate P0 answer_all locked_world = pump answer_all (flush_messages P0 ?w1)"
    using T [where h = answer_all, THEN conjunct2, THEN conjunct2, THEN conjunct2, THEN conjunct1] wl
    by blast
  have "pump answer_all (flush_messages P0 ?w1) = Some (answer_all (flush_messages P0 ?w1))"
    by (subst pump.simps, simp only: txn_flush_messages pos if_True, rule pump_done)
       (simp add: answer_all_def)
  with d have c: "map_option (\<lambda>w. pendingResponses (txn w))
       (write_and_replicate P0 answer_all locked_world) = Some 0"
    by (simp add: answer_all_def)
  from a b c show ?thesis by blast
qed

section \<open>The primitives of AriaTransaction\<close>

text \<open>
  Claim C10. With \<^verbatim>\<open>execution_phase\<close> set, \<^verbatim>\<open>search_for_read\<close>, \<^verbatim>\<open>search_for_update\<close>,
  \<^verbatim>\<open>search_local_index\<close> and \<^verbatim>\<open>update\<close> return the transaction as it was. With it clear,
  each appends exactly one entry and changes nothing else: the three searches append to
  the read set an entry with the read-request bit (\<^verbatim>\<open>search_local_index\<close> also with the
  local-index bit, the other two without it), \<^verbatim>\<open>update\<close> appends to the write set an entry
  with no bit, and the entry carries the given table id, partition id, key pointer and
  value pointer.
\<close>

theorem aria_primitives_frame:
  "(execution_phase t \<longrightarrow>
      search_for_read tb p k v t = t \<and> search_for_update tb p k v t = t
      \<and> search_local_index tb p k v t = t \<and> update tb p k v t = t)
   \<and> (\<not> execution_phase t \<longrightarrow>
      search_for_read tb p k v t =
        t\<lparr>readSet_aria := readSet_aria t @
            [new_RWKey\<lparr>table_id := tb, partition_id := p, key := k, val := v,
                        read_request_bit := True\<rparr>]\<rparr>
      \<and> search_for_update tb p k v t =
        t\<lparr>readSet_aria := readSet_aria t @
            [new_RWKey\<lparr>table_id := tb, partition_id := p, key := k, val := v,
                        read_request_bit := True\<rparr>]\<rparr>
      \<and> search_local_index tb p k v t =
        t\<lparr>readSet_aria := readSet_aria t @
            [new_RWKey\<lparr>table_id := tb, partition_id := p, key := k, val := v,
                        local_index_read_bit := True, read_request_bit := True\<rparr>]\<rparr>
      \<and> update tb p k v t =
        t\<lparr>writeSet_aria := writeSet_aria t @
            [new_RWKey\<lparr>table_id := tb, partition_id := p, key := k, val := v\<rparr>]\<rparr>
      \<and> length (readSet_aria (search_for_read tb p k v t)) = length (readSet_aria t) + 1
      \<and> length (readSet_aria (search_for_update tb p k v t)) = length (readSet_aria t) + 1
      \<and> length (readSet_aria (search_local_index tb p k v t)) = length (readSet_aria t) + 1
      \<and> length (writeSet_aria (update tb p k v t)) = length (writeSet_aria t) + 1
      \<and> writeSet_aria (search_for_read tb p k v t) = writeSet_aria t
      \<and> writeSet_aria (search_for_update tb p k v t) = writeSet_aria t
      \<and> writeSet_aria (search_local_index tb p k v t) = writeSet_aria t
      \<and> readSet_aria (update tb p k v t) = readSet_aria t)
   \<and> table_id (new_RWKey\<lparr>table_id := tb, partition_id := p, key := k, val := v,
                            read_request_bit := True\<rparr>) = tb
   \<and> \<not> local_index_read_bit (new_RWKey\<lparr>table_id := tb, partition_id := p, key := k, val := v,
                            read_request_bit := True\<rparr>)
   \<and> \<not> read_request_bit (new_RWKey\<lparr>table_id := tb, partition_id := p, key := k, val := v\<rparr>)"
  by (simp add: search_for_read_def search_for_update_def search_local_index_def update_def
        add_to_read_set_def add_to_write_set_def new_RWKey_def)

theorem aria_primitives_frame_witness:
  "execution_phase (fresh_aria\<lparr>execution_phase := True\<rparr>)
   \<and> search_for_read 3 4 5 6 (fresh_aria\<lparr>execution_phase := True\<rparr>)
       = fresh_aria\<lparr>execution_phase := True\<rparr>
   \<and> update 3 4 5 6 (fresh_aria\<lparr>execution_phase := True\<rparr>) = fresh_aria\<lparr>execution_phase := True\<rparr>
   \<and> \<not> execution_phase fresh_aria
   \<and> readSet_aria (search_local_index 3 4 5 6 fresh_aria)
       = [new_RWKey\<lparr>table_id := 3, partition_id := 4, key := 5, val := 6,
                     local_index_read_bit := True, read_request_bit := True\<rparr>]
   \<and> writeSet_aria (update 3 4 5 6 fresh_aria)
       = [new_RWKey\<lparr>table_id := 3, partition_id := 4, key := 5, val := 6\<rparr>]"
proof -
  have on: "execution_phase (fresh_aria\<lparr>execution_phase := True\<rparr>)" by simp
  have off: "\<not> execution_phase fresh_aria" by (simp add: fresh_aria_def)
  note T1 = aria_primitives_frame [of "fresh_aria\<lparr>execution_phase := True\<rparr>" 3 4 5 6,
      THEN conjunct1, rule_format, OF on]
  note T2 = aria_primitives_frame [of fresh_aria 3 4 5 6,
      THEN conjunct2, THEN conjunct1, rule_format, OF off]
  have e: "readSet_aria fresh_aria = []" "writeSet_aria fresh_aria = []"
    by (simp_all add: fresh_aria_def)
  have a: "search_for_read 3 4 5 6 (fresh_aria\<lparr>execution_phase := True\<rparr>)
       = fresh_aria\<lparr>execution_phase := True\<rparr>"
    by (rule T1[THEN conjunct1])
  have b: "update 3 4 5 6 (fresh_aria\<lparr>execution_phase := True\<rparr>) = fresh_aria\<lparr>execution_phase := True\<rparr>"
    by (rule T1[THEN conjunct2, THEN conjunct2, THEN conjunct2])
  have c: "readSet_aria (search_local_index 3 4 5 6 fresh_aria)
       = [new_RWKey\<lparr>table_id := 3, partition_id := 4, key := 5, val := 6,
                     local_index_read_bit := True, read_request_bit := True\<rparr>]"
    by (subst T2[THEN conjunct2, THEN conjunct2, THEN conjunct1]) (simp add: e)
  have d: "writeSet_aria (update 3 4 5 6 fresh_aria)
       = [new_RWKey\<lparr>table_id := 3, partition_id := 4, key := 5, val := 6\<rparr>]"
    by (subst T2[THEN conjunct2, THEN conjunct2, THEN conjunct2, THEN conjunct1]) (simp add: e)
  from on off a b c d show ?thesis by blast
qed

section \<open>Pending reads of an AriaTransaction\<close>

lemma takeWhile_rev_take_Suc:
  assumes "n < length rs"
  shows "length (takeWhile P (rev (take (Suc n) rs))) =
           (if P (rs ! n) then Suc (length (takeWhile P (rev (take n rs)))) else 0)"
  using assms by (simp add: take_Suc_conv_app_nth)

lemma length_takeWhile_rev_le: "length (takeWhile P (rev (take n rs))) \<le> n"
  by (rule order_trans[OF length_takeWhile_le]) simp

lemma process_requests_loop_suffix:
  assumes "n \<le> length rs"
    and "process_requests_loop h t (int n - 1) rs e calls = (rs', e', calls')"
  shows "length rs' = length rs
         \<and> calls' = calls @ rev [n - length (takeWhile read_request_bit (rev (take n rs)))..<n]
         \<and> (\<forall>j. j < n - length (takeWhile read_request_bit (rev (take n rs))) \<or> n \<le> j
                \<longrightarrow> rs' ! j = rs ! j)
         \<and> (\<forall>j. n - length (takeWhile read_request_bit (rev (take n rs))) \<le> j \<and> j < n
                \<longrightarrow> \<not> read_request_bit (rs' ! j))
         \<and> e' = fold (\<lambda>j e. snd (h (rs ! j) t j e))
                  (rev [n - length (takeWhile read_request_bit (rev (take n rs)))..<n]) e"
  using assms
proof (induction n arbitrary: rs e calls)
  case 0
  then show ?case by (simp add: process_requests_loop.simps[of h t "- 1"])
next
  case (Suc n)
  let ?m = "length (takeWhile read_request_bit (rev (take (Suc n) rs)))"
  let ?m1 = "length (takeWhile read_request_bit (rev (take n rs)))"
  from Suc.prems(1) have n: "n < length rs" by simp
  show ?case
  proof (cases "read_request_bit (rs ! n)")
    case False
    then have m: "?m = 0" using n by (simp add: takeWhile_rev_take_Suc)
    from Suc.prems(2) False have "rs' = rs" "e' = e" "calls' = calls"
      by (simp_all add: process_requests_loop.simps[of h t "int n"])
    then show ?thesis by (auto simp: m)
  next
    case True
    then have m: "?m = Suc ?m1" using n by (simp add: takeWhile_rev_take_Suc)
    obtain k1 e1 where hk: "h (rs ! n) t n e = (k1, e1)" by (cases "h (rs ! n) t n e") auto
    let ?rs1 = "rs[n := k1\<lparr>read_request_bit := False\<rparr>]"
    have tk: "take n ?rs1 = take n rs" by simp
    from Suc.prems(2) True hk
    have rec: "process_requests_loop h t (int n - 1) ?rs1 e1 (calls @ [n]) = (rs', e', calls')"
      by (simp add: process_requests_loop.simps[of h t "int n"])
    have le: "n \<le> length ?rs1" using n by simp
    note IH = Suc.IH[OF le rec, unfolded tk]
    note IH_len = IH[THEN conjunct1]
    note IH_calls = IH[THEN conjunct2, THEN conjunct1]
    note IH_same = IH[THEN conjunct2, THEN conjunct2, THEN conjunct1, rule_format]
    note IH_clear = IH[THEN conjunct2, THEN conjunct2, THEN conjunct2, THEN conjunct1, rule_format]
    note IH_env = IH[THEN conjunct2, THEN conjunct2, THEN conjunct2, THEN conjunct2]
    have m1: "?m1 \<le> n" by (rule length_takeWhile_rev_le)
    have len: "length rs' = length rs" using IH_len by simp
    have calls: "calls' = calls @ rev [Suc n - ?m..<Suc n]"
      using IH_calls m m1 by simp
    have same: "\<forall>j. j < Suc n - ?m \<or> Suc n \<le> j \<longrightarrow> rs' ! j = rs ! j"
    proof (intro allI impI)
      fix j assume j: "j < Suc n - ?m \<or> Suc n \<le> j"
      with m m1 have c: "j < n - ?m1 \<or> n \<le> j" and ne: "j \<noteq> n" by auto
      from IH_same[OF c] ne show "rs' ! j = rs ! j" by simp
    qed
    have at_n: "rs' ! n = k1\<lparr>read_request_bit := False\<rparr>"
      using IH_same[of n] n by simp
    have cleared: "\<forall>j. Suc n - ?m \<le> j \<and> j < Suc n \<longrightarrow> \<not> read_request_bit (rs' ! j)"
    proof (intro allI impI)
      fix j assume j: "Suc n - ?m \<le> j \<and> j < Suc n"
      show "\<not> read_request_bit (rs' ! j)"
      proof (cases "j = n")
        case True
        then show ?thesis by (simp add: at_n)
      next
        case False
        with j m have "n - ?m1 \<le> j \<and> j < n" by simp
        then show ?thesis by (rule IH_clear)
      qed
    qed
    have "fold (\<lambda>j e. snd (h (?rs1 ! j) t j e)) (rev [n - ?m1..<n]) e1
            = fold (\<lambda>j e. snd (h (rs ! j) t j e)) (rev [n - ?m1..<n]) e1"
      by (rule fold_cong[OF refl refl]) simp
    then have env: "e' = fold (\<lambda>j e. snd (h (rs ! j) t j e)) (rev [Suc n - ?m..<Suc n]) e"
      using IH_env m m1 hk by simp
    from len calls same cleared env show ?thesis by blast
  qed
qed

lemma takeWhile_rev_suffix:
  "\<forall>j. length xs - length (takeWhile P (rev xs)) \<le> j \<and> j < length xs \<longrightarrow> P (xs ! j)"
proof (intro allI impI)
  fix j assume j: "length xs - length (takeWhile P (rev xs)) \<le> j \<and> j < length xs"
  let ?k = "length xs - Suc j"
  from j have k: "?k < length (takeWhile P (rev xs))" by arith
  then have "takeWhile P (rev xs) ! ?k \<in> set (takeWhile P (rev xs))"
    by (rule nth_mem)
  then have "P (takeWhile P (rev xs) ! ?k)"
    by (rule set_takeWhileD[THEN conjunct2])
  moreover have "takeWhile P (rev xs) ! ?k = rev xs ! ?k"
    using k by (rule takeWhile_nth)
  moreover have "rev xs ! ?k = xs ! j"
  proof -
    from j have a: "?k < length xs" and b: "length xs - Suc ?k = j" by arith+
    show ?thesis by (simp only: rev_nth[OF a] b)
  qed
  ultimately show "P (xs ! j)" by simp
qed

lemma takeWhile_rev_stop:
  assumes "length (takeWhile P (rev xs)) < length xs"
  shows "\<not> P (xs ! (length xs - length (takeWhile P (rev xs)) - 1))"
proof -
  let ?m = "length (takeWhile P (rev xs))"
  from assms have "?m < length (rev xs)" by simp
  then have "\<not> P (rev xs ! ?m)" by (rule nth_length_takeWhile)
  moreover have "rev xs ! ?m = xs ! (length xs - Suc ?m)"
    using assms by (simp add: rev_nth)
  ultimately show ?thesis by simp
qed

text \<open>
  Claim C9. \<^verbatim>\<open>process_requests\<close> of the execution phase returns false and calls
  \<^verbatim>\<open>aria_read_handler\<close> exactly on the entries of the longest suffix of the read set whose
  read-request bits are all set, from the last entry down to the first of them (\<open>m\<close> is the
  length of that suffix, so the calls are the indices \<open>n - 1\<close> down to \<open>n - m\<close>): every
  entry of the suffix had the bit set and has it clear afterwards, the entry before the
  suffix, if there is one, has the bit clear (this is where the loop stops), the entries
  before the suffix are untouched, and nothing but the read set changes in the
  transaction. The rest of the state is what the calls of the handler, in that order, make
  of it.
\<close>

theorem process_requests_reverse_suffix:
  assumes "process_requests h worker_id t e = (b, t', e', calls)"
  shows
  "(let rs = readSet_aria t; n = length rs;
        m = length (takeWhile read_request_bit (rev rs))
    in \<not> b
       \<and> calls = rev [n - m..<n]
       \<and> t' = t\<lparr>readSet_aria := readSet_aria t'\<rparr>
       \<and> length (readSet_aria t') = n
       \<and> take (n - m) (readSet_aria t') = take (n - m) rs
       \<and> (\<forall>j. n - m \<le> j \<and> j < n \<longrightarrow>
             read_request_bit (rs ! j) \<and> \<not> read_request_bit (readSet_aria t' ! j))
       \<and> (m < n \<longrightarrow> \<not> read_request_bit (rs ! (n - m - 1)))
       \<and> e' = fold (\<lambda>j e. snd (h (rs ! j) (id_aria t) j e)) (rev [n - m..<n]) e)"
proof -
  let ?rs = "readSet_aria t"
  let ?n = "length ?rs"
  let ?m = "length (takeWhile read_request_bit (rev ?rs))"
  obtain rs' where loop:
    "process_requests_loop h (id_aria t) (int ?n - 1) ?rs e [] = (rs', e', calls)"
    and t': "t' = t\<lparr>readSet_aria := rs'\<rparr>" and b: "\<not> b"
    using assms by (cases "process_requests_loop h (id_aria t) (int ?n - 1) ?rs e []")
      (auto simp: process_requests_def)
  note L = process_requests_loop_suffix[OF le_refl loop, unfolded take_all[OF le_refl]]
  note L_len = L[THEN conjunct1]
  note L_calls = L[THEN conjunct2, THEN conjunct1]
  note L_same = L[THEN conjunct2, THEN conjunct2, THEN conjunct1, rule_format]
  note L_clear = L[THEN conjunct2, THEN conjunct2, THEN conjunct2, THEN conjunct1, rule_format]
  note L_env = L[THEN conjunct2, THEN conjunct2, THEN conjunct2, THEN conjunct2]
  have rs': "readSet_aria t' = rs'" by (simp add: t')
  have c: "calls = rev [?n - ?m..<?n]" using L_calls by simp
  have same: "rs' ! j = ?rs ! j" if "j < ?n - ?m" for j
    by (rule L_same) (simp add: that)
  have tk: "take (?n - ?m) rs' = take (?n - ?m) ?rs"
    by (rule nth_take_lemma) (simp_all add: L_len same)
  have cl: "\<forall>j. ?n - ?m \<le> j \<and> j < ?n \<longrightarrow>
             read_request_bit (?rs ! j) \<and> \<not> read_request_bit (rs' ! j)"
  proof (intro allI impI conjI)
    fix j assume j: "?n - ?m \<le> j \<and> j < ?n"
    from takeWhile_rev_suffix[of ?rs read_request_bit, rule_format, OF j]
    show "read_request_bit (?rs ! j)" .
    from j show "\<not> read_request_bit (rs' ! j)" by (rule L_clear)
  qed
  have st: "?m < ?n \<longrightarrow> \<not> read_request_bit (?rs ! (?n - ?m - 1))"
    by (rule impI) (rule takeWhile_rev_stop)
  have t'': "t' = t\<lparr>readSet_aria := readSet_aria t'\<rparr>" by (simp add: t')
  show ?thesis
    unfolding Let_def rs'
    by (intro conjI b c t''[unfolded rs'] L_len tk cl st L_env)
qed

theorem process_requests_reverse_suffix_witness:
  "process_requests count_reads 0 (fresh_aria\<lparr>readSet_aria := three_reads\<rparr>) 0 =
     (False,
      fresh_aria\<lparr>readSet_aria :=
        [new_RWKey\<lparr>key := 11, read_request_bit := True\<rparr>,
         new_RWKey\<lparr>key := 12\<rparr>,
         new_RWKey\<lparr>key := 13, read_request_bit := False, tid := 7\<rparr>]\<rparr>,
      1, [2])
   \<and> take 2 (readSet_aria (fresh_aria\<lparr>readSet_aria :=
        [new_RWKey\<lparr>key := 11, read_request_bit := True\<rparr>,
         new_RWKey\<lparr>key := 12\<rparr>,
         new_RWKey\<lparr>key := 13, read_request_bit := False, tid := 7\<rparr>]\<rparr>))
       = take 2 three_reads
   \<and> \<not> read_request_bit (three_reads ! 1)"
proof -
  let ?t = "fresh_aria\<lparr>readSet_aria := three_reads\<rparr>"
  let ?t' = "fresh_aria\<lparr>readSet_aria :=
        [new_RWKey\<lparr>key := 11, read_request_bit := True\<rparr>,
         new_RWKey\<lparr>key := 12\<rparr>,
         new_RWKey\<lparr>key := 13, read_request_bit := False, tid := 7\<rparr>]\<rparr>"
  have run: "process_requests count_reads 0 ?t 0 = (False, ?t', 1, [2])"
    by (simp add: process_requests_def three_reads_def count_reads_def new_RWKey_def
          process_requests_loop.simps[of _ _ 2] process_requests_loop.simps[of _ _ 1])
  have rs: "readSet_aria ?t = three_reads" by simp
  have m: "length (takeWhile read_request_bit (rev three_reads)) = 1"
    by (simp add: three_reads_def new_RWKey_def)
  have n: "length three_reads = 3"
    by (simp add: three_reads_def)
  note T = process_requests_reverse_suffix [OF run, unfolded Let_def rs m n]
  have a: "take 2 (readSet_aria ?t') = take 2 three_reads"
    using T[THEN conjunct2, THEN conjunct2, THEN conjunct2, THEN conjunct2, THEN conjunct1]
    by simp
  have b: "\<not> read_request_bit (three_reads ! 1)"
    using T[THEN conjunct2, THEN conjunct2, THEN conjunct2, THEN conjunct2, THEN conjunct2,
            THEN conjunct2, THEN conjunct1]
    by simp
  from run a b show ?thesis by blast
qed

section \<open>The retry loop of the executors\<close>

lemma prepare_Inr:
  assumes "prepare ctx cid H s = Inr s1"
  shows "last_seed s1 = random s \<and> transaction s1 \<noteq> None
         \<and> n_commit s1 = n_commit s \<and> n_abort_lock s1 = n_abort_lock s
         \<and> n_abort_read_validation s1 = n_abort_read_validation s
         \<and> n_abort_no_retry s1 = n_abort_no_retry s
         \<and> retry_transaction s1 = retry_transaction s
         \<and> (retry_transaction s \<longrightarrow> random s1 = random s)"
  using assms
  by (auto simp: prepare_def split: prod.splits option.splits if_splits)

lemma prepare_retry:
  assumes "retry_transaction s" "process_request H (transaction s, env s) = (Some t, e)"
  shows "prepare ctx cid H s =
           Inr (s\<lparr>last_seed := random s, transaction := Some (reset H t), env := e\<rparr>)"
  using assms by (simp add: prepare_def)

lemma settle_commit:
  assumes "transaction s1 = Some t1"
    "execute H t1 (random s1, env s1) = (READY_TO_COMMIT, t2, sd2, e2)"
    "protocol_commit H t2 e2 = Some (True, t3, e3)"
  shows "settle H s1 =
           Some (Inr (s1\<lparr>n_commit := n_commit s1 + 1, percentile := percentile s1 + 1,
                         retry_transaction := False, transaction := Some t3,
                         random := sd2, env := e3\<rparr>))"
  using assms by (simp add: settle_def)

lemma settle_abort_lock:
  assumes "transaction s1 = Some t1"
    "execute H t1 (random s1, env s1) = (READY_TO_COMMIT, t2, sd2, e2)"
    "protocol_commit H t2 e2 = Some (False, t3, e3)" "abort_lock_of H t3"
  shows "settle H s1 =
           Some (Inr (s1\<lparr>n_abort_lock := n_abort_lock s1 + 1,
                         random := last_seed s1, retry_transaction := True,
                         transaction := Some t3, env := e3\<rparr>))"
  using assms by (simp add: settle_def)

lemma settle_abort_read_validation:
  assumes "transaction s1 = Some t1"
    "execute H t1 (random s1, env s1) = (READY_TO_COMMIT, t2, sd2, e2)"
    "protocol_commit H t2 e2 = Some (False, t3, e3)" "\<not> abort_lock_of H t3"
  shows "settle H s1 =
           Some (Inr (s1\<lparr>n_abort_read_validation := n_abort_read_validation s1 + 1,
                         random := last_seed s1, retry_transaction := True,
                         transaction := Some t3, env := e3\<rparr>))"
  using assms by (simp add: settle_def)

lemma settle_no_retry:
  assumes "transaction s1 = Some t1"
    "execute H t1 (random s1, env s1) = (result, t2, sd2, e2)" "result \<noteq> READY_TO_COMMIT"
  shows "settle H s1 =
           Some (Inr (s1\<lparr>n_abort_no_retry := n_abort_no_retry s1 + 1,
                         transaction := Some t2, random := sd2, env := e2\<rparr>))"
  using assms by (simp add: settle_def)

lemma settle_total:
  assumes "settle H s1 = Some (Inr s')"
  shows "n_commit s' + n_abort_lock s' + n_abort_read_validation s' + n_abort_no_retry s'
           = n_commit s1 + n_abort_lock s1 + n_abort_read_validation s1 + n_abort_no_retry s1 + 1
         \<and> n_commit s1 \<le> n_commit s' \<and> n_abort_lock s1 \<le> n_abort_lock s'
         \<and> n_abort_read_validation s1 \<le> n_abort_read_validation s'
         \<and> n_abort_no_retry s1 \<le> n_abort_no_retry s'"
proof -
  from assms obtain t1 where t: "transaction s1 = Some t1"
    by (cases "transaction s1") (auto simp: settle_def)
  obtain result t2 sd2 e2 where x: "execute H t1 (random s1, env s1) = (result, t2, sd2, e2)"
    by (cases "execute H t1 (random s1, env s1)") auto
  show ?thesis
  proof (cases "result = READY_TO_COMMIT")
    case False
    from settle_no_retry[OF t x False] assms show ?thesis by auto
  next
    case True
    with assms t x obtain ok t3 e3 where c: "protocol_commit H t2 e2 = Some (ok, t3, e3)"
      by (cases "protocol_commit H t2 e2") (auto simp: settle_def)
    from x True have x': "execute H t1 (random s1, env s1) = (READY_TO_COMMIT, t2, sd2, e2)"
      by simp
    show ?thesis
    proof (cases ok)
      case True
      with c have c': "protocol_commit H t2 e2 = Some (True, t3, e3)" by simp
      from settle_commit[OF t x' c'] assms show ?thesis by auto
    next
      case False
      with c have c': "protocol_commit H t2 e2 = Some (False, t3, e3)" by simp
      show ?thesis
      proof (cases "abort_lock_of H t3")
        case True
        from settle_abort_lock[OF t x' c' True] assms show ?thesis by auto
      next
        case na: False
        from settle_abort_read_validation[OF t x' c' na] assms show ?thesis by auto
      qed
    qed
  qed
qed

lemma iteration_Inr:
  "prepare ctx cid H s = Inr s1 \<Longrightarrow> iteration ctx cid H s = settle H s1"
  by (simp add: iteration_def)

lemma iteration_total:
  assumes "iteration ctx cid H s = Some (Inr s')"
  shows "n_commit s' + n_abort_lock s' + n_abort_read_validation s' + n_abort_no_retry s'
           = n_commit s + n_abort_lock s + n_abort_read_validation s + n_abort_no_retry s + 1
         \<and> n_commit s \<le> n_commit s' \<and> n_abort_lock s \<le> n_abort_lock s'
         \<and> n_abort_read_validation s \<le> n_abort_read_validation s'
         \<and> n_abort_no_retry s \<le> n_abort_no_retry s'"
proof -
  from assms obtain s1 where p: "prepare ctx cid H s = Inr s1" and st: "settle H s1 = Some (Inr s')"
    by (cases "prepare ctx cid H s") (auto simp: iteration_def)
  from prepare_Inr[OF p] settle_total[OF st] show ?thesis by simp
qed

text \<open>What Scar's commit leaves in the flags when it returns false.\<close>

lemma flags_abort_loop:
  "abort_lock (txn (abort_loop P ws w)) = abort_lock (txn w)
   \<and> abort_read_validation (txn (abort_loop P ws w)) = abort_read_validation (txn w)"
  by (induction ws arbitrary: w) (auto simp: store_meta_def send_def)

lemma flags_abort:
  assumes "abort P h w = Some w'"
  shows "abort_lock (txn w') = abort_lock (txn w)
         \<and> abort_read_validation (txn w') = abort_read_validation (txn w)"
  using assms by (auto simp: abort_def sync_messages_def txn_flush_messages flags_abort_loop)

lemma lock_write_set_result:
  "lock_write_set P h w = Some (Inr (b, w1)) \<Longrightarrow> b = abort_lock (txn w1)"
  by (auto simp: lock_write_set_def split: sum.splits prod.splits option.splits)

lemma validate_read_set_result:
  "validate_read_set V P h w = Some (b, w1) \<Longrightarrow> b = (\<not> abort_read_validation (txn w1))"
  by (auto simp: validate_read_set_def split: prod.splits option.splits)

lemma commit_false_flags:
  assumes "commit V P h w = Some (Inr (False, w'))"
  shows "abort_lock (txn w') \<or> abort_read_validation (txn w')"
proof -
  from assms obtain b w1 where l: "lock_write_set P h w = Some (Inr (b, w1))"
    by (auto simp: commit_def split: option.splits sum.splits)
  show ?thesis
  proof (cases b)
    case True
    with assms l have "abort P h w1 = Some w'"
      by (auto simp: commit_def split: option.splits)
    with lock_write_set_result[OF l] True show ?thesis by (auto dest: flags_abort)
  next
    case False
    let ?w2 = "w1\<lparr>txn := compute_commit_ts (txn w1)\<rparr>"
    from assms l False obtain v w3 where r: "validate_read_set V P h ?w2 = Some (v, w3)"
      by (auto simp: commit_def split: option.splits)
    with assms l False have "\<not> v" and "abort P h w3 = Some w'"
      by (auto simp: commit_def split: option.splits if_splits)
    with validate_read_set_result[OF r] show ?thesis by (auto dest: flags_abort)
  qed
qed


lemma rstore_prepare_Inr:
  assumes "rstore_prepare X status pid s = Inr s1"
  shows "last_seed s1 = random s \<and> transaction s1 \<noteq> None \<and> q s1 = q s
         \<and> retry_transaction s1 = retry_transaction s
         \<and> (retry_transaction s \<longrightarrow> random s1 = random s)"
  using assms
  by (auto simp: rstore_prepare_def split: prod.splits option.splits if_splits)

lemma rstore_prepare_retry:
  assumes "retry_transaction s" "transaction s = Some t"
  shows "rstore_prepare X status pid s =
           Inr (s\<lparr>last_seed := random s, transaction := Some (reset (phase_hooks X status) t),
                  env := r_process_request X (env s)\<rparr>)"
  using assms by (simp add: rstore_prepare_def)

lemma rstore_settle_commit:
  assumes "transaction s1 = Some t1"
    "execute H t1 (random s1, env s1) = (READY_TO_COMMIT, t2, sd2, e2)"
    "protocol_commit H t2 e2 = Some (True, t3, e3)"
  shows "rstore_settle H s1 =
           Some (Inr (s1\<lparr>n_commit := n_commit s1 + 1,
                         n_network_size := n_network_size s1 + network_size_of H t3,
                         retry_transaction := False, transaction := None,
                         random := sd2, env := e3, q := q s1 @ [t3]\<rparr>))"
  using assms by (simp add: rstore_settle_def)

lemma rstore_settle_abort:
  assumes "transaction s1 = Some t1"
    "execute H t1 (random s1, env s1) = (READY_TO_COMMIT, t2, sd2, e2)"
    "protocol_commit H t2 e2 = Some (False, t3, e3)"
  shows "\<exists>s'. rstore_settle H s1 = Some (Inr s') \<and> random s' = last_seed s1
              \<and> retry_transaction s' \<and> transaction s' = Some t3 \<and> env s' = e3 \<and> q s' = q s1"
  using assms by (simp add: rstore_settle_def)

lemma settle_abort:
  assumes "transaction s1 = Some t1"
    "execute H t1 (random s1, env s1) = (READY_TO_COMMIT, t2, sd2, e2)"
    "protocol_commit H t2 e2 = Some (False, t3, e3)"
  shows "\<exists>s'. settle H s1 = Some (Inr s') \<and> random s' = last_seed s1
              \<and> retry_transaction s' \<and> transaction s' = Some t3 \<and> env s' = e3"
  using assms by (simp add: settle_def)

lemma rstore_attempt_Inr:
  "rstore_prepare X status pid s = Inr s1 \<Longrightarrow>
   rstore_attempt X status pid s = rstore_settle (phase_hooks X status) s1"
  by (simp add: rstore_attempt_def)

lemma prepare_idle:
  "prepare two_nodes 0 toy_hooks idle_executor =
     Inr (idle_executor\<lparr>last_seed := 42, random := 44, transaction := Some 0, env := 0\<rparr>)"
  by (simp add: prepare_def two_nodes_def toy_hooks_def idle_executor_def)

lemma rstore_prepare_idle:
  "rstore_prepare toy_params S_PHASE 0 idle_rstore_executor =
     Inr (idle_rstore_executor\<lparr>last_seed := 42, random := 43, transaction := Some 0, env := 0\<rparr>)"
  by (simp add: rstore_prepare_def toy_params_def toy_hooks_def idle_rstore_executor_def)

text \<open>
  Claim C7. An iteration of \<^verbatim>\<open>Executor::start\<close> that reaches \<^verbatim>\<open>execute()\<close> changes exactly
  one of the four outcome counters, by one: \<^verbatim>\<open>n_commit\<close> when \<^verbatim>\<open>execute()\<close> returns
  \<^verbatim>\<open>READY_TO_COMMIT\<close> and the commit returns true; \<^verbatim>\<open>n_abort_lock\<close> when the commit returns
  false and \<^verbatim>\<open>abort_lock\<close> is set; \<^verbatim>\<open>n_abort_read_validation\<close> when the commit returns false
  and \<^verbatim>\<open>abort_lock\<close> is clear; \<^verbatim>\<open>n_abort_no_retry\<close> when \<^verbatim>\<open>execute()\<close> returns anything else.
  Each case gives the state the iteration returns, so the other counters are seen to be
  those of the start; the sixth conjunct says the same of every iteration that returns.
  The last conjunct is what the \<^verbatim>\<open>DCHECK\<close> of the third case asks of the protocol, for
  Scar's \<^verbatim>\<open>commit\<close>: when it returns false with \<^verbatim>\<open>abort_lock\<close> clear,
  \<^verbatim>\<open>abort_read_validation\<close> is set.
\<close>

theorem executor_counts_one_outcome:
  assumes p: "prepare ctx cid H s = Inr s1" and t: "transaction s1 = Some t1"
    and x: "execute H t1 (random s1, env s1) = (result, t2, sd2, e2)"
  shows
  "(result = READY_TO_COMMIT \<and> protocol_commit H t2 e2 = Some (True, t3, e3) \<longrightarrow>
      iteration ctx cid H s =
        Some (Inr (s1\<lparr>n_commit := n_commit s + 1, percentile := percentile s1 + 1,
                      retry_transaction := False, transaction := Some t3,
                      random := sd2, env := e3\<rparr>)))
   \<and> (result = READY_TO_COMMIT \<and> protocol_commit H t2 e2 = Some (False, t3, e3)
        \<and> abort_lock_of H t3 \<longrightarrow>
      iteration ctx cid H s =
        Some (Inr (s1\<lparr>n_abort_lock := n_abort_lock s + 1,
                      random := random s, retry_transaction := True,
                      transaction := Some t3, env := e3\<rparr>)))
   \<and> (result = READY_TO_COMMIT \<and> protocol_commit H t2 e2 = Some (False, t3, e3)
        \<and> \<not> abort_lock_of H t3 \<longrightarrow>
      iteration ctx cid H s =
        Some (Inr (s1\<lparr>n_abort_read_validation := n_abort_read_validation s + 1,
                      random := random s, retry_transaction := True,
                      transaction := Some t3, env := e3\<rparr>)))
   \<and> (result \<noteq> READY_TO_COMMIT \<longrightarrow>
      iteration ctx cid H s =
        Some (Inr (s1\<lparr>n_abort_no_retry := n_abort_no_retry s + 1,
                      transaction := Some t2, random := sd2, env := e2\<rparr>)))
   \<and> n_commit s1 = n_commit s \<and> n_abort_lock s1 = n_abort_lock s
   \<and> n_abort_read_validation s1 = n_abort_read_validation s
   \<and> n_abort_no_retry s1 = n_abort_no_retry s
   \<and> (iteration ctx cid H s = Some (Inr s') \<longrightarrow>
        n_commit s' + n_abort_lock s' + n_abort_read_validation s' + n_abort_no_retry s'
          = n_commit s + n_abort_lock s + n_abort_read_validation s + n_abort_no_retry s + 1
        \<and> n_commit s \<le> n_commit s' \<and> n_abort_lock s \<le> n_abort_lock s'
        \<and> n_abort_read_validation s \<le> n_abort_read_validation s'
        \<and> n_abort_no_retry s \<le> n_abort_no_retry s')
   \<and> (commit V P h w = Some (Inr (False, w')) \<and> \<not> abort_lock (txn w') \<longrightarrow>
        abort_read_validation (txn w'))"
proof -
  note pi = prepare_Inr[OF p]
  note it = iteration_Inr[OF p]
  have A: "result = READY_TO_COMMIT \<and> protocol_commit H t2 e2 = Some (True, t3, e3) \<longrightarrow>
      iteration ctx cid H s =
        Some (Inr (s1\<lparr>n_commit := n_commit s + 1, percentile := percentile s1 + 1,
                      retry_transaction := False, transaction := Some t3,
                      random := sd2, env := e3\<rparr>))"
    using settle_commit[OF t, of H t2 sd2 e2 t3 e3] x pi by (simp add: it)
  have B: "result = READY_TO_COMMIT \<and> protocol_commit H t2 e2 = Some (False, t3, e3)
        \<and> abort_lock_of H t3 \<longrightarrow>
      iteration ctx cid H s =
        Some (Inr (s1\<lparr>n_abort_lock := n_abort_lock s + 1,
                      random := random s, retry_transaction := True,
                      transaction := Some t3, env := e3\<rparr>))"
    using settle_abort_lock[OF t, of H t2 sd2 e2 t3 e3] x pi by (simp add: it)
  have C: "result = READY_TO_COMMIT \<and> protocol_commit H t2 e2 = Some (False, t3, e3)
        \<and> \<not> abort_lock_of H t3 \<longrightarrow>
      iteration ctx cid H s =
        Some (Inr (s1\<lparr>n_abort_read_validation := n_abort_read_validation s + 1,
                      random := random s, retry_transaction := True,
                      transaction := Some t3, env := e3\<rparr>))"
    using settle_abort_read_validation[OF t, of H t2 sd2 e2 t3 e3] x pi by (simp add: it)
  have D: "result \<noteq> READY_TO_COMMIT \<longrightarrow>
      iteration ctx cid H s =
        Some (Inr (s1\<lparr>n_abort_no_retry := n_abort_no_retry s + 1,
                      transaction := Some t2, random := sd2, env := e2\<rparr>))"
    using settle_no_retry[OF t x] pi by (simp add: it)
  have E: "n_commit s1 = n_commit s \<and> n_abort_lock s1 = n_abort_lock s
   \<and> n_abort_read_validation s1 = n_abort_read_validation s
   \<and> n_abort_no_retry s1 = n_abort_no_retry s"
    using pi by simp
  have F: "iteration ctx cid H s = Some (Inr s') \<longrightarrow>
        n_commit s' + n_abort_lock s' + n_abort_read_validation s' + n_abort_no_retry s'
          = n_commit s + n_abort_lock s + n_abort_read_validation s + n_abort_no_retry s + 1
        \<and> n_commit s \<le> n_commit s' \<and> n_abort_lock s \<le> n_abort_lock s'
        \<and> n_abort_read_validation s \<le> n_abort_read_validation s'
        \<and> n_abort_no_retry s \<le> n_abort_no_retry s'"
    by (rule impI) (rule iteration_total)
  have G: "commit V P h w = Some (Inr (False, w')) \<and> \<not> abort_lock (txn w') \<longrightarrow>
        abort_read_validation (txn w')"
    using commit_false_flags[of V P h w w'] by blast
  from A B C D E F G show ?thesis by (intro conjI) blast+
qed

theorem executor_counts_one_outcome_witness:
  "iteration two_nodes 0 toy_hooks idle_executor =
     Some (Inr (idle_executor\<lparr>last_seed := 42, random := 44, transaction := Some 0, env := 0,
                  n_abort_read_validation := n_abort_read_validation idle_executor + 1,
                  random := random idle_executor, retry_transaction := True,
                  transaction := Some 0, env := 0\<rparr>))
   \<and> n_abort_read_validation idle_executor + 1 = 1"
proof -
  let ?s1 = "idle_executor\<lparr>last_seed := 42, random := 44, transaction := Some 0, env := 0\<rparr>"
  have t: "transaction ?s1 = Some 0" by simp
  have x: "execute toy_hooks 0 (random ?s1, env ?s1) = (READY_TO_COMMIT, 0, 45, 0)"
    by (simp add: toy_hooks_def)
  have c: "READY_TO_COMMIT = READY_TO_COMMIT \<and> protocol_commit toy_hooks 0 0 = Some (False, 0, 0)
           \<and> \<not> abort_lock_of toy_hooks 0"
    by (simp add: toy_hooks_def)
  have a: "iteration two_nodes 0 toy_hooks idle_executor =
     Some (Inr (?s1\<lparr>n_abort_read_validation := n_abort_read_validation idle_executor + 1,
                  random := random idle_executor, retry_transaction := True,
                  transaction := Some 0, env := 0\<rparr>))"
    by (rule executor_counts_one_outcome [OF prepare_idle t x, THEN conjunct2, THEN conjunct2,
          THEN conjunct1, rule_format, OF c])
  have b: "n_abort_read_validation idle_executor + 1 = 1" by (simp add: idle_executor_def)
  from a b show ?thesis by (rule conjI)
qed

text \<open>
  Claim C6. The seed saved at the start of an iteration is the seed the iteration began
  with, before a transaction is generated or reset. When the commit returns false, the
  iteration returns with the seed set back to it, the retry flag set and the transaction
  kept, and the loop goes on from there; the next iteration then resets that transaction
  (as the message handlers leave it) instead of generating one, and draws nothing from
  the random generator before \<^verbatim>\<open>execute()\<close>, which so runs on the saved seed. When the commit
  returns true the retry flag is clear. The last two conjuncts say the same of the
  \<^verbatim>\<open>do ... while (retry_transaction)\<close> loop of \<^verbatim>\<open>RStoreExecutor::run_transaction\<close>, where a
  committed transaction is moved to the queue \<open>q\<close> and ends the loop.
\<close>

theorem retry_restores_seed:
  assumes p: "prepare ctx cid H s = Inr s1" and t: "transaction s1 = Some t1"
    and x: "execute H t1 (random s1, env s1) = (READY_TO_COMMIT, t2, sd2, e2)"
  shows
  "last_seed s1 = random s
   \<and> (protocol_commit H t2 e2 = Some (False, t3, e3) \<longrightarrow>
        (\<exists>s'. iteration ctx cid H s = Some (Inr s')
              \<and> start ctx cid H (False # loads) s = start ctx cid H loads s'
              \<and> random s' = random s \<and> retry_transaction s' \<and> transaction s' = Some t3
              \<and> env s' = e3
              \<and> (process_request H (Some t3, env s') = (Some t4, e4) \<longrightarrow>
                    prepare ctx cid H s' =
                      Inr (s'\<lparr>last_seed := random s, transaction := Some (reset H t4),
                              env := e4\<rparr>))))
   \<and> (protocol_commit H t2 e2 = Some (True, t3, e3) \<longrightarrow>
        (\<exists>s'. iteration ctx cid H s = Some (Inr s') \<and> \<not> retry_transaction s'))
   \<and> (rstore_prepare X status pid r = Inr r1 \<and> transaction r1 = Some u1
        \<and> execute (phase_hooks X status) u1 (random r1, env r1) = (READY_TO_COMMIT, u2, sd3, e5)
        \<and> protocol_commit (phase_hooks X status) u2 e5 = Some (False, u3, e6) \<longrightarrow>
        last_seed r1 = random r
        \<and> (\<exists>r'. rstore_attempt X status pid r = Some (Inr r')
              \<and> rstore_retry_loop X status pid r = rstore_retry_loop X status pid r'
              \<and> random r' = random r \<and> retry_transaction r' \<and> transaction r' = Some u3
              \<and> rstore_prepare X status pid r' =
                    Inr (r'\<lparr>last_seed := random r,
                            transaction := Some (reset (phase_hooks X status) u3),
                            env := r_process_request X (env r')\<rparr>)))
   \<and> (rstore_prepare X status pid r = Inr r1 \<and> transaction r1 = Some u1
        \<and> execute (phase_hooks X status) u1 (random r1, env r1) = (READY_TO_COMMIT, u2, sd3, e5)
        \<and> protocol_commit (phase_hooks X status) u2 e5 = Some (True, u3, e6) \<longrightarrow>
        (\<exists>r'. rstore_attempt X status pid r = Some (Inr r')
              \<and> rstore_retry_loop X status pid r = Some (Inr r')
              \<and> \<not> retry_transaction r' \<and> q r' = q r @ [u3]))"
proof -
  note pi = prepare_Inr[OF p]
  note it = iteration_Inr[OF p]
  have A: "last_seed s1 = random s" using pi by simp
  have B: "protocol_commit H t2 e2 = Some (False, t3, e3) \<longrightarrow>
        (\<exists>s'. iteration ctx cid H s = Some (Inr s')
              \<and> start ctx cid H (False # loads) s = start ctx cid H loads s'
              \<and> random s' = random s \<and> retry_transaction s' \<and> transaction s' = Some t3
              \<and> env s' = e3
              \<and> (process_request H (Some t3, env s') = (Some t4, e4) \<longrightarrow>
                    prepare ctx cid H s' =
                      Inr (s'\<lparr>last_seed := random s, transaction := Some (reset H t4),
                              env := e4\<rparr>)))"
  proof
    assume c: "protocol_commit H t2 e2 = Some (False, t3, e3)"
    from settle_abort[OF t x c] obtain s' where s': "settle H s1 = Some (Inr s')"
      "random s' = last_seed s1" "retry_transaction s'" "transaction s' = Some t3" "env s' = e3"
      by blast
    have i: "iteration ctx cid H s = Some (Inr s')" by (simp add: it s')
    have st: "start ctx cid H (False # loads) s = start ctx cid H loads s'" by (simp add: i)
    have r: "random s' = random s" using s' A by simp
    have n: "process_request H (Some t3, env s') = (Some t4, e4) \<longrightarrow>
                    prepare ctx cid H s' =
                      Inr (s'\<lparr>last_seed := random s, transaction := Some (reset H t4),
                              env := e4\<rparr>)"
      using prepare_retry[of s' H t4 e4 ctx cid] s' r by simp
    from i st r s' n show "\<exists>s'. iteration ctx cid H s = Some (Inr s')
              \<and> start ctx cid H (False # loads) s = start ctx cid H loads s'
              \<and> random s' = random s \<and> retry_transaction s' \<and> transaction s' = Some t3
              \<and> env s' = e3
              \<and> (process_request H (Some t3, env s') = (Some t4, e4) \<longrightarrow>
                    prepare ctx cid H s' =
                      Inr (s'\<lparr>last_seed := random s, transaction := Some (reset H t4),
                              env := e4\<rparr>))"
      by blast
  qed
  have C: "protocol_commit H t2 e2 = Some (True, t3, e3) \<longrightarrow>
        (\<exists>s'. iteration ctx cid H s = Some (Inr s') \<and> \<not> retry_transaction s')"
    using settle_commit[OF t x, of t3 e3] by (auto simp: it)
  have D: "rstore_prepare X status pid r = Inr r1 \<and> transaction r1 = Some u1
        \<and> execute (phase_hooks X status) u1 (random r1, env r1) = (READY_TO_COMMIT, u2, sd3, e5)
        \<and> protocol_commit (phase_hooks X status) u2 e5 = Some (False, u3, e6) \<longrightarrow>
        last_seed r1 = random r
        \<and> (\<exists>r'. rstore_attempt X status pid r = Some (Inr r')
              \<and> rstore_retry_loop X status pid r = rstore_retry_loop X status pid r'
              \<and> random r' = random r \<and> retry_transaction r' \<and> transaction r' = Some u3
              \<and> rstore_prepare X status pid r' =
                    Inr (r'\<lparr>last_seed := random r,
                            transaction := Some (reset (phase_hooks X status) u3),
                            env := r_process_request X (env r')\<rparr>))"
  proof
    assume a: "rstore_prepare X status pid r = Inr r1 \<and> transaction r1 = Some u1
        \<and> execute (phase_hooks X status) u1 (random r1, env r1) = (READY_TO_COMMIT, u2, sd3, e5)
        \<and> protocol_commit (phase_hooks X status) u2 e5 = Some (False, u3, e6)"
    then have rp: "rstore_prepare X status pid r = Inr r1" and rt: "transaction r1 = Some u1"
      and rx: "execute (phase_hooks X status) u1 (random r1, env r1) = (READY_TO_COMMIT, u2, sd3, e5)"
      and rc: "protocol_commit (phase_hooks X status) u2 e5 = Some (False, u3, e6)"
      by simp_all
    from rstore_prepare_Inr[OF rp] have ls: "last_seed r1 = random r" by simp
    from rstore_settle_abort[OF rt rx rc] obtain r' where
      r': "rstore_settle (phase_hooks X status) r1 = Some (Inr r')" "random r' = last_seed r1"
        "retry_transaction r'" "transaction r' = Some u3"
      by blast
    have at: "rstore_attempt X status pid r = Some (Inr r')"
      by (simp add: rstore_attempt_Inr[OF rp] r')
    have lp: "rstore_retry_loop X status pid r = rstore_retry_loop X status pid r'"
      by (subst rstore_retry_loop.simps) (simp add: at r')
    have rr: "random r' = random r" using r' ls by simp
    have np: "rstore_prepare X status pid r' =
                    Inr (r'\<lparr>last_seed := random r,
                            transaction := Some (reset (phase_hooks X status) u3),
                            env := r_process_request X (env r')\<rparr>)"
      using rstore_prepare_retry[OF r'(3,4), of X status pid] rr by simp
    from ls at lp rr r' np show "last_seed r1 = random r
        \<and> (\<exists>r'. rstore_attempt X status pid r = Some (Inr r')
              \<and> rstore_retry_loop X status pid r = rstore_retry_loop X status pid r'
              \<and> random r' = random r \<and> retry_transaction r' \<and> transaction r' = Some u3
              \<and> rstore_prepare X status pid r' =
                    Inr (r'\<lparr>last_seed := random r,
                            transaction := Some (reset (phase_hooks X status) u3),
                            env := r_process_request X (env r')\<rparr>))"
      by blast
  qed
  have E: "rstore_prepare X status pid r = Inr r1 \<and> transaction r1 = Some u1
        \<and> execute (phase_hooks X status) u1 (random r1, env r1) = (READY_TO_COMMIT, u2, sd3, e5)
        \<and> protocol_commit (phase_hooks X status) u2 e5 = Some (True, u3, e6) \<longrightarrow>
        (\<exists>r'. rstore_attempt X status pid r = Some (Inr r')
              \<and> rstore_retry_loop X status pid r = Some (Inr r')
              \<and> \<not> retry_transaction r' \<and> q r' = q r @ [u3])"
  proof
    assume a: "rstore_prepare X status pid r = Inr r1 \<and> transaction r1 = Some u1
        \<and> execute (phase_hooks X status) u1 (random r1, env r1) = (READY_TO_COMMIT, u2, sd3, e5)
        \<and> protocol_commit (phase_hooks X status) u2 e5 = Some (True, u3, e6)"
    then have rp: "rstore_prepare X status pid r = Inr r1" and rt: "transaction r1 = Some u1"
      and rx: "execute (phase_hooks X status) u1 (random r1, env r1) = (READY_TO_COMMIT, u2, sd3, e5)"
      and rc: "protocol_commit (phase_hooks X status) u2 e5 = Some (True, u3, e6)"
      by simp_all
    let ?r' = "r1\<lparr>n_commit := n_commit r1 + 1,
                  n_network_size := n_network_size r1 + network_size_of (phase_hooks X status) u3,
                  retry_transaction := False, transaction := None,
                  random := sd3, env := e6, q := q r1 @ [u3]\<rparr>"
    have at: "rstore_attempt X status pid r = Some (Inr ?r')"
      by (simp add: rstore_attempt_Inr[OF rp] rstore_settle_commit[OF rt rx rc])
    have lp: "rstore_retry_loop X status pid r = Some (Inr ?r')"
      by (subst rstore_retry_loop.simps) (simp add: at)
    have qq: "q ?r' = q r @ [u3]" using rstore_prepare_Inr[OF rp] by simp
    have nr: "\<not> retry_transaction ?r'" by simp
    from at lp nr qq show "\<exists>r'. rstore_attempt X status pid r = Some (Inr r')
              \<and> rstore_retry_loop X status pid r = Some (Inr r')
              \<and> \<not> retry_transaction r' \<and> q r' = q r @ [u3]"
      by blast
  qed
  from A B C D E show ?thesis by (intro conjI)
qed

theorem retry_restores_seed_witness:
  "(\<exists>s'. iteration two_nodes 0 toy_hooks idle_executor = Some (Inr s')
        \<and> random s' = random idle_executor \<and> retry_transaction s' \<and> transaction s' = Some 0
        \<and> prepare two_nodes 0 toy_hooks s' =
            Inr (s'\<lparr>last_seed := random idle_executor, transaction := Some (Suc 0), env := 0\<rparr>))
   \<and> (\<exists>r'. rstore_attempt toy_params S_PHASE 0 idle_rstore_executor = Some (Inr r')
        \<and> random r' = random idle_rstore_executor \<and> retry_transaction r'
        \<and> transaction r' = Some 0)"
proof -
  let ?s1 = "idle_executor\<lparr>last_seed := 42, random := 44, transaction := Some 0, env := 0\<rparr>"
  let ?r1 = "idle_rstore_executor\<lparr>last_seed := 42, random := 43, transaction := Some 0, env := 0\<rparr>"
  have t: "transaction ?s1 = Some 0" by simp
  have x: "execute toy_hooks 0 (random ?s1, env ?s1) = (READY_TO_COMMIT, 0, 45, 0)"
    by (simp add: toy_hooks_def)
  have c: "protocol_commit toy_hooks 0 0 = Some (False, 0, 0)"
    by (simp add: toy_hooks_def)
  from retry_restores_seed [OF prepare_idle t x, THEN conjunct2, THEN conjunct1, rule_format, OF c,
      where ?t4.0 = 0 and ?e4.0 = 0 and loads = "[]"]
  obtain s' where s': "iteration two_nodes 0 toy_hooks idle_executor = Some (Inr s')"
      "random s' = random idle_executor" "retry_transaction s'" "transaction s' = Some 0"
      "env s' = 0"
      "process_request toy_hooks (Some 0, env s') = (Some 0, 0) \<longrightarrow>
         prepare two_nodes 0 toy_hooks s' =
           Inr (s'\<lparr>last_seed := random idle_executor, transaction := Some (reset toy_hooks 0),
                   env := 0\<rparr>)"
    by blast
  have pr: "process_request toy_hooks (Some 0, env s') = (Some 0, 0)"
    by (simp add: toy_hooks_def s')
  have rs: "reset toy_hooks 0 = Suc 0" by (simp add: toy_hooks_def)
  from s'(6) pr rs have np: "prepare two_nodes 0 toy_hooks s' =
            Inr (s'\<lparr>last_seed := random idle_executor, transaction := Some (Suc 0), env := 0\<rparr>)"
    by simp
  have a: "\<exists>s'. iteration two_nodes 0 toy_hooks idle_executor = Some (Inr s')
        \<and> random s' = random idle_executor \<and> retry_transaction s' \<and> transaction s' = Some 0
        \<and> prepare two_nodes 0 toy_hooks s' =
            Inr (s'\<lparr>last_seed := random idle_executor, transaction := Some (Suc 0), env := 0\<rparr>)"
    using s'(1-4) np by blast
  have rt: "transaction ?r1 = Some 0" by simp
  have rx: "execute (phase_hooks toy_params S_PHASE) 0 (random ?r1, env ?r1)
              = (READY_TO_COMMIT, 0, 44, 0)"
    by (simp add: toy_params_def toy_hooks_def)
  have rc: "protocol_commit (phase_hooks toy_params S_PHASE) 0 0 = Some (False, 0, 0)"
    by (simp add: toy_params_def toy_hooks_def)
  from retry_restores_seed [OF prepare_idle t x, THEN conjunct2, THEN conjunct2, THEN conjunct2,
      THEN conjunct1, rule_format, OF conjI [OF rstore_prepare_idle conjI [OF rt conjI [OF rx rc]]]]
  have b: "\<exists>r'. rstore_attempt toy_params S_PHASE 0 idle_rstore_executor = Some (Inr r')
        \<and> random r' = random idle_rstore_executor \<and> retry_transaction r'
        \<and> transaction r' = Some 0"
    by blast
  from a b show ?thesis by (rule conjI)
qed

section \<open>The phases of RStoreExecutor\<close>

text \<open>Only \<^verbatim>\<open>start\<close>, \<^verbatim>\<open>commit_transactions\<close> and \<^verbatim>\<open>process_request\<close> add to the list of
  events: \<^verbatim>\<open>run_transaction\<close> adds the event of its own call and nothing else, however
  many attempts its transactions take.\<close>

lemma trace_rstore_prepare:
  "rstore_prepare X status pid s = Inr s1 \<Longrightarrow> trace s1 = trace s"
  by (auto simp: rstore_prepare_def split: prod.splits option.splits if_splits)

lemma trace_rstore_settle:
  "rstore_settle H s1 = Some (Inr s') \<Longrightarrow> trace s' = trace s1"
  by (auto simp: rstore_settle_def split: prod.splits option.splits if_splits)

lemma trace_rstore_attempt:
  assumes "rstore_attempt X status pid s = Some (Inr s')"
  shows "trace s' = trace s"
proof -
  from assms obtain s1 where "rstore_prepare X status pid s = Inr s1"
    and "rstore_settle (phase_hooks X status) s1 = Some (Inr s')"
    by (cases "rstore_prepare X status pid s") (auto simp: rstore_attempt_def)
  then show ?thesis by (simp add: trace_rstore_prepare trace_rstore_settle)
qed

lemma trace_rstore_retry_loop:
  assumes "rstore_retry_loop X status pid s = Some r"
  shows "\<forall>s'. r = Inr s' \<longrightarrow> trace s' = trace s"
proof (rule rstore_retry_loop.raw_induct[where P = "\<lambda>X status pid s r. \<forall>s'. r = Inr s' \<longrightarrow> trace s' = trace s",
      OF _ assms])
  fix loop :: "('a, 'b) rstore_params \<Rightarrow> ExecutorStatus \<Rightarrow> nat \<Rightarrow> ('a, 'b) rstore_executor
      \<Rightarrow> (fault + ('a, 'b) rstore_executor) option"
  fix X status pid s r
  assume IH: "\<And>X status pid s r. loop X status pid s = Some r \<Longrightarrow>
                \<forall>s'. r = Inr s' \<longrightarrow> trace s' = trace s"
    and step: "(case rstore_attempt X status pid s of
                  None \<Rightarrow> None
                | Some (Inl f) \<Rightarrow> Some (Inl f)
                | Some (Inr s') \<Rightarrow>
                    if retry_transaction s' then loop X status pid s' else Some (Inr s')) = Some r"
  show "\<forall>s'. r = Inr s' \<longrightarrow> trace s' = trace s"
  proof (cases "rstore_attempt X status pid s")
    case None
    with step show ?thesis by simp
  next
    case (Some a)
    show ?thesis
    proof (cases a)
      case (Inl f)
      with Some step show ?thesis by auto
    next
      case (Inr s1)
      with Some have t1: "trace s1 = trace s" by (simp add: trace_rstore_attempt)
      show ?thesis
      proof (cases "retry_transaction s1")
        case True
        with Some Inr step have "loop X status pid s1 = Some r" by simp
        from IH[OF this] t1 show ?thesis by simp
      next
        case False
        with Some Inr step t1 show ?thesis by auto
      qed
    qed
  qed
qed

lemma trace_rstore_queries:
  "rstore_queries X status pid is s = Some (Inr s') \<Longrightarrow> trace s' = trace s"
proof (induction "is" arbitrary: s)
  case Nil
  then show ?case by simp
next
  case (Cons i rest)
  from Cons.prems obtain s1 where
    l: "rstore_retry_loop X status pid (s\<lparr>retry_transaction := False\<rparr>) = Some (Inr s1)"
    and r: "rstore_queries X status pid rest
              (if i mod batch_flush X status = 0 then s1\<lparr>env := r_flush_messages X (env s1)\<rparr> else s1)
              = Some (Inr s')"
    by (auto split: option.splits sum.splits if_splits)
  from trace_rstore_retry_loop[OF l] have "trace s1 = trace s" by simp
  with Cons.IH[OF r] show ?case by (simp split: if_splits)
qed

lemma trace_run_transaction:
  assumes "run_transaction ctx cid wid X status s0 = Some (Inr s')"
  shows "trace s' = trace s0 @ [RUN_TRANSACTION status (length (q s0))]"
  using assms
  by (auto simp: run_transaction_def Let_def log_event_def
           split: if_splits prod.splits option.splits sum.splits
           dest!: trace_rstore_queries)

lemma run_transaction_cid:
  assumes "run_transaction ctx cid wid X C_PHASE s0 = Some (Inr s')"
  shows "cid = 0"
  using assms
  by (auto simp: run_transaction_def Let_def split: if_splits prod.splits option.splits sum.splits)

lemma wait_c_phase_spin:
  assumes "\<forall>st\<in>set pre. st \<noteq> EXIT \<and> st \<noteq> C_PHASE"
  shows "rstore_start ctx cid wid X WAIT_C_PHASE (pre @ loads) s
           = rstore_start ctx cid wid X WAIT_C_PHASE loads s"
  using assms by (induction pre) auto


lemma wait_s_phase_spin:
  assumes "\<forall>st\<in>set mid. st \<noteq> S_PHASE"
  shows "rstore_start ctx cid wid X WAIT_S_PHASE (mid @ loads) s
           = rstore_start ctx cid wid X WAIT_S_PHASE loads s"
  using assms by (induction mid) auto

lemma wait_stop_spin:
  assumes "\<forall>st\<in>set post. st \<noteq> STOP"
  shows "rstore_start ctx cid wid X WAIT_STOP (post @ loads) s
           = rstore_start ctx cid wid X WAIT_STOP loads s"
  using assms by (induction post) auto

lemma serve_c_phase_spin:
  assumes "\<forall>st\<in>set serve. st \<noteq> STOP"
  shows "rstore_start ctx cid wid X SERVE_C_PHASE (serve @ loads) s
           = rstore_start ctx cid wid X SERVE_C_PHASE loads
               ((rstore_process_request X ^^ length serve) s)"
  using assms by (induction serve arbitrary: s) (auto simp: funpow_swap1)

lemma trace_process_requests:
  "trace ((rstore_process_request X ^^ n) s) = trace s @ replicate n PROCESS_REQUEST"
  by (induction n arbitrary: s)
     (auto simp: rstore_process_request_def log_event_def replicate_append_same)

lemma q_process_requests: "q ((rstore_process_request X ^^ n) s) = q s"
  by (induction n arbitrary: s) (auto simp: rstore_process_request_def log_event_def)


lemma trace_commit_transactions:
  "trace (commit_transactions s) = trace s @ [COMMIT_TRANSACTIONS (length (q s))]"
  "q (commit_transactions s) = []"
  by (simp_all add: commit_transactions_def log_event_def)

lemma trace_log_event: "trace (log_event ev s) = trace s @ [ev]" "q (log_event ev s) = q s"
  by (simp_all add: log_event_def)

lemma trace_process_request:
  "trace (rstore_process_request X s) = trace s @ [PROCESS_REQUEST]"
  "q (rstore_process_request X s) = q s"
  by (simp_all add: rstore_process_request_def log_event_def)

lemma s_phase_tail:
  assumes mid: "\<forall>st\<in>set mid. st \<noteq> S_PHASE" and post: "\<forall>st\<in>set post. st \<noteq> STOP"
  obtains (tail_fails) out where "out = None \<or> (\<exists>f. out = Some (Inl f))"
      and "\<And>loads. rstore_start ctx cid wid X WAIT_S_PHASE (mid @ S_PHASE # post @ STOP # loads) s1 = out"
    | (tail_returns) s' where
        "trace s' = trace s1 @ [COMMIT_TRANSACTIONS (length (q s1)), STARTED_ADD,
                                RUN_TRANSACTION S_PHASE 0, COMPLETE_ADD, PROCESS_REQUEST, COMPLETE_ADD]"
      and "\<And>loads. rstore_start ctx cid wid X WAIT_S_PHASE (mid @ S_PHASE # post @ STOP # loads) s1
                    = rstore_start ctx cid wid X WAIT_C_PHASE loads s'"
proof -
  let ?s0 = "log_event STARTED_ADD (commit_transactions s1)"
  have t0: "trace ?s0 = trace s1 @ [COMMIT_TRANSACTIONS (length (q s1)), STARTED_ADD]"
    and q0: "q ?s0 = []"
    by (simp_all add: trace_commit_transactions trace_log_event)
  have step: "rstore_start ctx cid wid X WAIT_S_PHASE (mid @ S_PHASE # post @ STOP # loads) s1
      = (case run_transaction ctx cid wid X S_PHASE ?s0 of
           None \<Rightarrow> None | Some (Inl f) \<Rightarrow> Some (Inl f)
         | Some (Inr s2) \<Rightarrow> rstore_start ctx cid wid X WAIT_STOP (post @ STOP # loads)
                               (log_event COMPLETE_ADD s2))" for loads
    by (simp add: wait_s_phase_spin[OF mid])
  show thesis
  proof (cases "run_transaction ctx cid wid X S_PHASE ?s0")
    case None
    show thesis by (rule tail_fails[of None]) (simp_all add: step None)
  next
    case (Some r)
    show thesis
    proof (cases r)
      case (Inl f)
      show thesis by (rule tail_fails[of "Some (Inl f)"]) (simp_all add: step Some Inl)
    next
      case (Inr s2)
      let ?s' = "log_event COMPLETE_ADD (rstore_process_request X (log_event COMPLETE_ADD s2))"
      from Some Inr have "trace s2 = trace ?s0 @ [RUN_TRANSACTION S_PHASE (length (q ?s0))]"
        by (simp add: trace_run_transaction)
      then have t2: "trace s2 = trace s1 @ [COMMIT_TRANSACTIONS (length (q s1)), STARTED_ADD,
                                           RUN_TRANSACTION S_PHASE 0]"
        by (simp add: t0 q0)
      show thesis
      proof (rule tail_returns[of ?s'])
        show "trace ?s' = trace s1 @ [COMMIT_TRANSACTIONS (length (q s1)), STARTED_ADD,
                                RUN_TRANSACTION S_PHASE 0, COMPLETE_ADD, PROCESS_REQUEST, COMPLETE_ADD]"
          by (simp add: trace_log_event trace_process_request t2)
        show "rstore_start ctx cid wid X WAIT_S_PHASE (mid @ S_PHASE # post @ STOP # loads) s1
                    = rstore_start ctx cid wid X WAIT_C_PHASE loads ?s'" for loads
          by (simp add: step Some Inr wait_stop_spin[OF post])
      qed
    qed
  qed
qed

lemma cycle_coordinator_0:
  assumes pre: "\<forall>st\<in>set pre. st \<noteq> EXIT \<and> st \<noteq> C_PHASE"
    and mid: "\<forall>st\<in>set mid. st \<noteq> S_PHASE"
    and post: "\<forall>st\<in>set post. st \<noteq> STOP"
  obtains (fails) out where "out = None \<or> (\<exists>f. out = Some (Inl f))"
      and "\<And>loads. rstore_start ctx 0 wid X WAIT_C_PHASE
                      (pre @ C_PHASE # mid @ S_PHASE # post @ STOP # loads) s = out"
    | (returns) s' n where
        "trace s' = trace s @ [COMMIT_TRANSACTIONS (length (q s)), STARTED_ADD,
           RUN_TRANSACTION C_PHASE 0, COMPLETE_ADD, COMMIT_TRANSACTIONS n, STARTED_ADD,
           RUN_TRANSACTION S_PHASE 0, COMPLETE_ADD, PROCESS_REQUEST, COMPLETE_ADD]"
      and "\<And>loads. rstore_start ctx 0 wid X WAIT_C_PHASE
                      (pre @ C_PHASE # mid @ S_PHASE # post @ STOP # loads) s
                    = rstore_start ctx 0 wid X WAIT_C_PHASE loads s'"
proof -
  let ?s0 = "log_event STARTED_ADD (commit_transactions s)"
  have step: "rstore_start ctx 0 wid X WAIT_C_PHASE
                 (pre @ C_PHASE # mid @ S_PHASE # post @ STOP # loads) s
      = (case run_transaction ctx 0 wid X C_PHASE ?s0 of
           None \<Rightarrow> None | Some (Inl f) \<Rightarrow> Some (Inl f)
         | Some (Inr s1) \<Rightarrow> rstore_start ctx 0 wid X WAIT_S_PHASE
                               (mid @ S_PHASE # post @ STOP # loads)
                               (log_event COMPLETE_ADD s1))" for loads
    by (simp add: wait_c_phase_spin[OF pre])
  show thesis
  proof (cases "run_transaction ctx 0 wid X C_PHASE ?s0")
    case None
    show thesis by (rule fails[of None]) (simp_all add: step None)
  next
    case (Some r)
    show thesis
    proof (cases r)
      case (Inl f)
      show thesis by (rule fails[of "Some (Inl f)"]) (simp_all add: step Some Inl)
    next
      case (Inr s1)
      from Some Inr have "trace s1 = trace ?s0 @ [RUN_TRANSACTION C_PHASE (length (q ?s0))]"
        by (simp add: trace_run_transaction)
      then have t1: "trace (log_event COMPLETE_ADD s1)
          = trace s @ [COMMIT_TRANSACTIONS (length (q s)), STARTED_ADD,
                       RUN_TRANSACTION C_PHASE 0, COMPLETE_ADD]"
        by (simp add: trace_commit_transactions trace_log_event)
      from mid post show thesis
      proof (cases rule: s_phase_tail[of mid post ctx 0 wid X "log_event COMPLETE_ADD s1"])
        case (tail_fails out)
        show thesis by (rule fails[of out]) (simp_all add: step Some Inr tail_fails)
      next
        case (tail_returns s')
        show thesis
          by (rule returns[of s' "length (q (log_event COMPLETE_ADD s1))"])
             (simp_all add: step Some Inr tail_returns t1)
      qed
    qed
  qed
qed

lemma cycle_other_coordinator:
  assumes cid: "cid \<noteq> 0"
    and pre: "\<forall>st\<in>set pre. st \<noteq> EXIT \<and> st \<noteq> C_PHASE"
    and serve: "\<forall>st\<in>set serve. st \<noteq> STOP"
    and mid: "\<forall>st\<in>set mid. st \<noteq> S_PHASE"
    and post: "\<forall>st\<in>set post. st \<noteq> STOP"
  obtains (fails) out where "out = None \<or> (\<exists>f. out = Some (Inl f))"
      and "\<And>loads. rstore_start ctx cid wid X WAIT_C_PHASE
                      (pre @ C_PHASE # serve @ STOP # mid @ S_PHASE # post @ STOP # loads) s = out"
    | (returns) s' where
        "trace s' = trace s @ [COMMIT_TRANSACTIONS (length (q s)), STARTED_ADD] @
           replicate (Suc (length serve)) PROCESS_REQUEST @
           [COMPLETE_ADD, COMMIT_TRANSACTIONS 0, STARTED_ADD,
            RUN_TRANSACTION S_PHASE 0, COMPLETE_ADD, PROCESS_REQUEST, COMPLETE_ADD]"
      and "\<And>loads. rstore_start ctx cid wid X WAIT_C_PHASE
                      (pre @ C_PHASE # serve @ STOP # mid @ S_PHASE # post @ STOP # loads) s
                    = rstore_start ctx cid wid X WAIT_C_PHASE loads s'"
proof -
  let ?s0 = "log_event STARTED_ADD (commit_transactions s)"
  let ?s1 = "log_event COMPLETE_ADD (rstore_process_request X
               ((rstore_process_request X ^^ length serve) ?s0))"
  have step: "rstore_start ctx cid wid X WAIT_C_PHASE
                 (pre @ C_PHASE # serve @ STOP # mid @ S_PHASE # post @ STOP # loads) s
      = rstore_start ctx cid wid X WAIT_S_PHASE (mid @ S_PHASE # post @ STOP # loads) ?s1" for loads
    by (simp add: wait_c_phase_spin[OF pre] cid serve_c_phase_spin[OF serve])
  have t1: "trace ?s1 = trace s @ [COMMIT_TRANSACTIONS (length (q s)), STARTED_ADD] @
              replicate (Suc (length serve)) PROCESS_REQUEST @ [COMPLETE_ADD]"
    and q1: "q ?s1 = []"
    by (simp_all add: trace_log_event trace_process_request trace_process_requests
          q_process_requests trace_commit_transactions replicate_append_same)
  from mid post show thesis
  proof (cases rule: s_phase_tail[of mid post ctx cid wid X ?s1])
    case (tail_fails out)
    show thesis by (rule fails[of out]) (simp_all add: step tail_fails)
  next
    case (tail_returns s')
    show thesis
      by (rule returns[of s']) (simp_all add: step tail_returns t1 q1)
  qed
qed

text \<open>The toy worker: every transaction commits at its second attempt, so each call of
  \<^verbatim>\<open>run_transaction\<close> with one query leaves one transaction in \<open>q\<close>.\<close>

lemma toy_retry_loop:
  "rstore_retry_loop toy_params status pid
     (s\<lparr>retry_transaction := False\<rparr>) =
   Some (Inr (s\<lparr>n_commit := n_commit s + 1,
                 n_abort_read_validation := n_abort_read_validation s + 1,
                 n_network_size := n_network_size s,
                 retry_transaction := False, transaction := None,
                 last_seed := random s,
                 random := random s + 1, env := env s, q := q s @ [1]\<rparr>))"
  apply (subst rstore_retry_loop.simps)
  apply (simp add: rstore_attempt_def rstore_prepare_def rstore_settle_def toy_params_def toy_hooks_def)
  apply (subst rstore_retry_loop.simps)
  apply (simp add: rstore_attempt_def rstore_prepare_def rstore_settle_def toy_params_def toy_hooks_def)
  done


lemma toy_run_transaction_c:
  "run_transaction two_nodes 0 0 toy_params C_PHASE s =
   Some (Inr (s\<lparr>n_commit := n_commit s + 1,
                 n_abort_read_validation := n_abort_read_validation s + 1,
                 retry_transaction := False, transaction := None,
                 last_seed := random s + 1,
                 random := random s + 2, q := q s @ [1],
                 trace := trace s @ [RUN_TRANSACTION C_PHASE (length (q s))]\<rparr>))"
proof -
  have a: "phase_has_master_partition toy_params C_PHASE p" for p
    by (simp add: toy_params_def)
  have b: "query_num toy_params C_PHASE = 1" "batch_flush toy_params C_PHASE = 1"
    "r_flush_messages toy_params e = e" for e
    by (simp_all add: toy_params_def)
  have c: "uniform_dist (phase_hooks toy_params C_PHASE) sd lo hi = (lo, sd + 1)" for sd lo hi
    by (simp add: toy_params_def toy_hooks_def)
  show ?thesis
    unfolding run_transaction_def Let_def
    by (simp add: two_nodes_def a b c log_event_def toy_retry_loop)
qed

lemma toy_run_transaction_s:
  "run_transaction two_nodes cid wid toy_params S_PHASE s =
   Some (Inr (s\<lparr>n_commit := n_commit s + 1,
                 n_abort_read_validation := n_abort_read_validation s + 1,
                 retry_transaction := False, transaction := None,
                 last_seed := random s,
                 random := random s + 1, q := q s @ [1],
                 trace := trace s @ [RUN_TRANSACTION S_PHASE (length (q s))]\<rparr>))"
proof -
  have a: "phase_has_master_partition toy_params S_PHASE p" for p
    by (simp add: toy_params_def)
  have b: "query_num toy_params S_PHASE = 1" "batch_flush toy_params S_PHASE = 1"
    "r_flush_messages toy_params e = e" for e
    by (simp_all add: toy_params_def)
  show ?thesis
    unfolding run_transaction_def Let_def
    by (simp add: two_nodes_def a b log_event_def toy_retry_loop)
qed

lemma toy_cycle:
  "rstore_start two_nodes 0 0 toy_params WAIT_C_PHASE [C_PHASE, S_PHASE, STOP, EXIT]
     idle_rstore_executor =
   Some (Inr (idle_rstore_executor\<lparr>n_commit := 2, n_abort_read_validation := 2,
     last_seed := 44, random := 45, percentile := 2,
     trace := [COMMIT_TRANSACTIONS 0, STARTED_ADD, RUN_TRANSACTION C_PHASE 0, COMPLETE_ADD,
               COMMIT_TRANSACTIONS 1, STARTED_ADD, RUN_TRANSACTION S_PHASE 0, COMPLETE_ADD,
               PROCESS_REQUEST, COMPLETE_ADD, COMMIT_TRANSACTIONS 1]\<rparr>))"
proof -
  have a: "r_process_request toy_params e = e" for e :: nat
    by (simp add: toy_params_def)
  show ?thesis
    by (simp add: toy_run_transaction_c toy_run_transaction_s commit_transactions_def log_event_def
          rstore_process_request_def idle_rstore_executor_def a)
qed

lemma toy_returns_0:
  "\<exists>x. rstore_start two_nodes 0 0 toy_params WAIT_C_PHASE
         [STOP, C_PHASE, C_PHASE, S_PHASE, S_PHASE, STOP, EXIT] idle_rstore_executor
       = Some (Inr x)"
  by (simp add: toy_run_transaction_c toy_run_transaction_s)

lemma toy_returns_1:
  "\<exists>x. rstore_start two_nodes 1 0 toy_params WAIT_C_PHASE
         [C_PHASE, C_PHASE, C_PHASE, STOP, S_PHASE, STOP, EXIT] idle_rstore_executor
       = Some (Inr x)"
  by (simp add: toy_run_transaction_s)

lemma rstore_start_exit:
  "rstore_start ctx cid wid X WAIT_C_PHASE [EXIT] s = Some (Inr (commit_transactions s))"
  by simp

text \<open>
  Claim C8, as stated, fails: a worker does not add one to \<^verbatim>\<open>n_complete_workers\<close> exactly
  once per phase. In the S-phase it adds one after \<^verbatim>\<open>run_transaction(S_PHASE)\<close> and one more
  after it has seen \<^verbatim>\<open>STOP\<close> and called \<^verbatim>\<open>process_request()\<close> (the source comments the
  second one with "n_complete_workers has been cleared"). Worker 0 of coordinator 0 loads
  \<^verbatim>\<open>C_PHASE\<close>, \<^verbatim>\<open>S_PHASE\<close>, \<^verbatim>\<open>STOP\<close> and \<^verbatim>\<open>EXIT\<close>: over the two phases it adds to
  \<^verbatim>\<open>n_started_workers\<close> twice and to \<^verbatim>\<open>n_complete_workers\<close> three times.
\<close>

theorem rstore_phase_cycle_counterexample:
  "map_option (map_sum id trace)
     (rstore_start two_nodes 0 0 toy_params WAIT_C_PHASE [C_PHASE, S_PHASE, STOP, EXIT]
        idle_rstore_executor) =
   Some (Inr [COMMIT_TRANSACTIONS 0, STARTED_ADD, RUN_TRANSACTION C_PHASE 0, COMPLETE_ADD,
              COMMIT_TRANSACTIONS 1, STARTED_ADD, RUN_TRANSACTION S_PHASE 0, COMPLETE_ADD,
              PROCESS_REQUEST, COMPLETE_ADD, COMMIT_TRANSACTIONS 1])"
  unfolding toy_cycle by simp

text \<open>
  Claim C8, amended. One cycle of a worker at the top of \<^verbatim>\<open>start\<close>: it loads any statuses
  \<open>pre\<close> but \<^verbatim>\<open>EXIT\<close> and \<^verbatim>\<open>C_PHASE\<close>, then \<^verbatim>\<open>C_PHASE\<close>; on another coordinator than 0 it
  loads any statuses \<open>serve\<close> but \<^verbatim>\<open>STOP\<close>, then \<^verbatim>\<open>STOP\<close>; it loads any statuses \<open>mid\<close> but
  \<^verbatim>\<open>S_PHASE\<close>, then \<^verbatim>\<open>S_PHASE\<close>; it loads any statuses \<open>post\<close> but \<^verbatim>\<open>STOP\<close>, then \<^verbatim>\<open>STOP\<close>.
  Either one of its two calls of \<^verbatim>\<open>run_transaction\<close> does not return or fails a \<^verbatim>\<open>CHECK\<close>,
  and so does the worker whatever it would load next; or the worker is back at the top of
  \<^verbatim>\<open>start\<close>, and what it did in the cycle is, in this order:
  \<^verbatim>\<open>commit_transactions\<close>, which drains \<open>q\<close>; one \<^verbatim>\<open>n_started_workers.fetch_add(1)\<close>; on
  coordinator 0 \<^verbatim>\<open>run_transaction(C_PHASE)\<close>, entered with \<open>q\<close> empty, on another
  coordinator no transaction but one \<^verbatim>\<open>process_request()\<close> for every status of \<open>serve\<close> and
  one more after \<^verbatim>\<open>STOP\<close>; one \<^verbatim>\<open>n_complete_workers.fetch_add(1)\<close>;
  \<^verbatim>\<open>commit_transactions\<close>, which drains what the C-phase committed (nothing on another
  coordinator than 0); one \<^verbatim>\<open>n_started_workers.fetch_add(1)\<close>; \<^verbatim>\<open>run_transaction(S_PHASE)\<close>,
  entered with \<open>q\<close> empty; one \<^verbatim>\<open>n_complete_workers.fetch_add(1)\<close>; after \<^verbatim>\<open>STOP\<close> one
  \<^verbatim>\<open>process_request()\<close> and a second \<^verbatim>\<open>n_complete_workers.fetch_add(1)\<close>.
\<close>

theorem rstore_phase_cycle:
  assumes pre: "\<forall>st\<in>set pre. st \<noteq> EXIT \<and> st \<noteq> C_PHASE"
    and serve: "\<forall>st\<in>set serve. st \<noteq> STOP"
    and mid: "\<forall>st\<in>set mid. st \<noteq> S_PHASE"
    and post: "\<forall>st\<in>set post. st \<noteq> STOP"
  shows
  "(\<exists>out. (out = None \<or> (\<exists>f. out = Some (Inl f))) \<and>
      (\<forall>loads. rstore_start ctx cid wid X WAIT_C_PHASE
                 (pre @ C_PHASE # (if cid = 0 then [] else serve @ [STOP]) @
                  mid @ S_PHASE # post @ STOP # loads) s = out))
   \<or> (\<exists>s' n.
        trace s' = trace s @ [COMMIT_TRANSACTIONS (length (q s)), STARTED_ADD] @
          (if cid = 0 then [RUN_TRANSACTION C_PHASE 0]
           else replicate (Suc (length serve)) PROCESS_REQUEST) @
          [COMPLETE_ADD, COMMIT_TRANSACTIONS n, STARTED_ADD, RUN_TRANSACTION S_PHASE 0,
           COMPLETE_ADD, PROCESS_REQUEST, COMPLETE_ADD]
        \<and> (cid \<noteq> 0 \<longrightarrow> n = 0)
        \<and> (\<forall>loads. rstore_start ctx cid wid X WAIT_C_PHASE
                 (pre @ C_PHASE # (if cid = 0 then [] else serve @ [STOP]) @
                  mid @ S_PHASE # post @ STOP # loads) s
               = rstore_start ctx cid wid X WAIT_C_PHASE loads s'))"
  (is "?fails \<or> ?returns")
proof (cases "cid = 0")
  case True
  from pre mid post show ?thesis
  proof (cases rule: cycle_coordinator_0[of pre mid post ctx wid X s])
    case (fails out)
    then have ?fails unfolding True by auto
    then show ?thesis ..
  next
    case (returns s' n)
    then have ?returns unfolding True by auto
    then show ?thesis ..
  qed
next
  case False
  from False pre serve mid post show ?thesis
  proof (cases rule: cycle_other_coordinator[of cid pre serve mid post ctx wid X s])
    case (fails out)
    then have ?fails using False by auto
    then show ?thesis ..
  next
    case (returns s')
    then have ?returns using False by auto
    then show ?thesis ..
  qed
qed

theorem rstore_phase_cycle_witness:
  "(\<exists>s' n. trace s' = [COMMIT_TRANSACTIONS 0, STARTED_ADD, RUN_TRANSACTION C_PHASE 0,
                        COMPLETE_ADD, COMMIT_TRANSACTIONS n, STARTED_ADD,
                        RUN_TRANSACTION S_PHASE 0, COMPLETE_ADD, PROCESS_REQUEST, COMPLETE_ADD]
      \<and> rstore_start two_nodes 0 0 toy_params WAIT_C_PHASE
          [STOP, C_PHASE, C_PHASE, S_PHASE, S_PHASE, STOP, EXIT] idle_rstore_executor
        = Some (Inr (commit_transactions s')))
   \<and> (\<exists>s'. trace s' = [COMMIT_TRANSACTIONS 0, STARTED_ADD, PROCESS_REQUEST, PROCESS_REQUEST,
                        PROCESS_REQUEST, COMPLETE_ADD, COMMIT_TRANSACTIONS 0, STARTED_ADD,
                        RUN_TRANSACTION S_PHASE 0, COMPLETE_ADD, PROCESS_REQUEST, COMPLETE_ADD]
      \<and> rstore_start two_nodes 1 0 toy_params WAIT_C_PHASE
          [C_PHASE, C_PHASE, C_PHASE, STOP, S_PHASE, STOP, EXIT] idle_rstore_executor
        = Some (Inr (commit_transactions s')))"
  (is "?coordinator_0 \<and> ?coordinator_1")
proof (rule conjI)
  have t: "trace idle_rstore_executor = []" "q idle_rstore_executor = []"
    by (simp_all add: idle_rstore_executor_def)
  have p1: "\<forall>st\<in>set [STOP]. st \<noteq> EXIT \<and> st \<noteq> C_PHASE" by simp
  have p2: "\<forall>st\<in>set []. st \<noteq> STOP" by simp
  have p3: "\<forall>st\<in>set [C_PHASE]. st \<noteq> S_PHASE" by simp
  have p4: "\<forall>st\<in>set [S_PHASE]. st \<noteq> STOP" by simp
  note T = rstore_phase_cycle[OF p1 p2 p3 p4, of two_nodes 0 0 toy_params idle_rstore_executor]
  from toy_returns_0 obtain x where
    x: "rstore_start two_nodes 0 0 toy_params WAIT_C_PHASE
          [STOP, C_PHASE, C_PHASE, S_PHASE, S_PHASE, STOP, EXIT] idle_rstore_executor
        = Some (Inr x)" ..
  from T show ?coordinator_0
  proof (rule disjE)
    assume "\<exists>out. (out = None \<or> (\<exists>f. out = Some (Inl f))) \<and>
      (\<forall>loads. rstore_start two_nodes 0 0 toy_params WAIT_C_PHASE
                ([STOP] @ C_PHASE # (if (0::nat) = 0 then [] else [] @ [STOP]) @
                 [C_PHASE] @ S_PHASE # [S_PHASE] @ STOP # loads) idle_rstore_executor = out)"
    then obtain out where o: "out = None \<or> (\<exists>f. out = Some (Inl f))"
      and a: "\<And>loads. rstore_start two_nodes 0 0 toy_params WAIT_C_PHASE
                ([STOP] @ C_PHASE # (if (0::nat) = 0 then [] else [] @ [STOP]) @
                 [C_PHASE] @ S_PHASE # [S_PHASE] @ STOP # loads) idle_rstore_executor = out"
      by blast
    from a[of "[EXIT]"] x have "out = Some (Inr x)" by simp
    with o show ?thesis by auto
  next
    assume "\<exists>s' n. trace s' = trace idle_rstore_executor @
          [COMMIT_TRANSACTIONS (length (q idle_rstore_executor)), STARTED_ADD] @
          (if (0::nat) = 0 then [RUN_TRANSACTION C_PHASE 0]
           else replicate (Suc (length ([]::ExecutorStatus list))) PROCESS_REQUEST) @
          [COMPLETE_ADD, COMMIT_TRANSACTIONS n, STARTED_ADD, RUN_TRANSACTION S_PHASE 0,
           COMPLETE_ADD, PROCESS_REQUEST, COMPLETE_ADD]
        \<and> ((0::nat) \<noteq> 0 \<longrightarrow> n = 0)
        \<and> (\<forall>loads. rstore_start two_nodes 0 0 toy_params WAIT_C_PHASE
                ([STOP] @ C_PHASE # (if (0::nat) = 0 then [] else [] @ [STOP]) @
                 [C_PHASE] @ S_PHASE # [S_PHASE] @ STOP # loads) idle_rstore_executor
              = rstore_start two_nodes 0 0 toy_params WAIT_C_PHASE loads s')"
    then obtain s' n where tr: "trace s' = trace idle_rstore_executor @
          [COMMIT_TRANSACTIONS (length (q idle_rstore_executor)), STARTED_ADD] @
          (if (0::nat) = 0 then [RUN_TRANSACTION C_PHASE 0]
           else replicate (Suc (length ([]::ExecutorStatus list))) PROCESS_REQUEST) @
          [COMPLETE_ADD, COMMIT_TRANSACTIONS n, STARTED_ADD, RUN_TRANSACTION S_PHASE 0,
           COMPLETE_ADD, PROCESS_REQUEST, COMPLETE_ADD]"
      and a: "\<And>loads. rstore_start two_nodes 0 0 toy_params WAIT_C_PHASE
                ([STOP] @ C_PHASE # (if (0::nat) = 0 then [] else [] @ [STOP]) @
                 [C_PHASE] @ S_PHASE # [S_PHASE] @ STOP # loads) idle_rstore_executor
              = rstore_start two_nodes 0 0 toy_params WAIT_C_PHASE loads s'"
      by blast
    have "rstore_start two_nodes 0 0 toy_params WAIT_C_PHASE
            [STOP, C_PHASE, C_PHASE, S_PHASE, S_PHASE, STOP, EXIT] idle_rstore_executor
          = Some (Inr (commit_transactions s'))"
      using a[of "[EXIT]"] unfolding rstore_start_exit by simp
    moreover from tr have "trace s' = [COMMIT_TRANSACTIONS 0, STARTED_ADD,
        RUN_TRANSACTION C_PHASE 0, COMPLETE_ADD, COMMIT_TRANSACTIONS n, STARTED_ADD,
        RUN_TRANSACTION S_PHASE 0, COMPLETE_ADD, PROCESS_REQUEST, COMPLETE_ADD]"
      by (simp add: t)
    ultimately show ?thesis by blast
  qed
next
  have t: "trace idle_rstore_executor = []" "q idle_rstore_executor = []"
    by (simp_all add: idle_rstore_executor_def)
  have p1: "\<forall>st\<in>set []. st \<noteq> EXIT \<and> st \<noteq> C_PHASE" by simp
  have p2: "\<forall>st\<in>set [C_PHASE, C_PHASE]. st \<noteq> STOP" by simp
  have p3: "\<forall>st\<in>set []. st \<noteq> S_PHASE" by simp
  have p4: "\<forall>st\<in>set []. st \<noteq> STOP" by simp
  note T = rstore_phase_cycle[OF p1 p2 p3 p4, of two_nodes 1 0 toy_params idle_rstore_executor]
  from toy_returns_1 obtain x where
    x: "rstore_start two_nodes 1 0 toy_params WAIT_C_PHASE
          [C_PHASE, C_PHASE, C_PHASE, STOP, S_PHASE, STOP, EXIT] idle_rstore_executor
        = Some (Inr x)" ..
  from T show ?coordinator_1
  proof (rule disjE)
    assume "\<exists>out. (out = None \<or> (\<exists>f. out = Some (Inl f))) \<and>
      (\<forall>loads. rstore_start two_nodes 1 0 toy_params WAIT_C_PHASE
                ([] @ C_PHASE # (if (1::nat) = 0 then [] else [C_PHASE, C_PHASE] @ [STOP]) @
                 [] @ S_PHASE # [] @ STOP # loads) idle_rstore_executor = out)"
    then obtain out where o: "out = None \<or> (\<exists>f. out = Some (Inl f))"
      and a: "\<And>loads. rstore_start two_nodes 1 0 toy_params WAIT_C_PHASE
                ([] @ C_PHASE # (if (1::nat) = 0 then [] else [C_PHASE, C_PHASE] @ [STOP]) @
                 [] @ S_PHASE # [] @ STOP # loads) idle_rstore_executor = out"
      by blast
    from a[of "[EXIT]"] x have "out = Some (Inr x)" by simp
    with o show ?thesis by auto
  next
    assume "\<exists>s' n. trace s' = trace idle_rstore_executor @
          [COMMIT_TRANSACTIONS (length (q idle_rstore_executor)), STARTED_ADD] @
          (if (1::nat) = 0 then [RUN_TRANSACTION C_PHASE 0]
           else replicate (Suc (length [C_PHASE, C_PHASE])) PROCESS_REQUEST) @
          [COMPLETE_ADD, COMMIT_TRANSACTIONS n, STARTED_ADD, RUN_TRANSACTION S_PHASE 0,
           COMPLETE_ADD, PROCESS_REQUEST, COMPLETE_ADD]
        \<and> ((1::nat) \<noteq> 0 \<longrightarrow> n = 0)
        \<and> (\<forall>loads. rstore_start two_nodes 1 0 toy_params WAIT_C_PHASE
                ([] @ C_PHASE # (if (1::nat) = 0 then [] else [C_PHASE, C_PHASE] @ [STOP]) @
                 [] @ S_PHASE # [] @ STOP # loads) idle_rstore_executor
              = rstore_start two_nodes 1 0 toy_params WAIT_C_PHASE loads s')"
    then obtain s' n where tr: "trace s' = trace idle_rstore_executor @
          [COMMIT_TRANSACTIONS (length (q idle_rstore_executor)), STARTED_ADD] @
          (if (1::nat) = 0 then [RUN_TRANSACTION C_PHASE 0]
           else replicate (Suc (length [C_PHASE, C_PHASE])) PROCESS_REQUEST) @
          [COMPLETE_ADD, COMMIT_TRANSACTIONS n, STARTED_ADD, RUN_TRANSACTION S_PHASE 0,
           COMPLETE_ADD, PROCESS_REQUEST, COMPLETE_ADD]"
      and n: "(1::nat) \<noteq> 0 \<longrightarrow> n = 0"
      and a: "\<And>loads. rstore_start two_nodes 1 0 toy_params WAIT_C_PHASE
                ([] @ C_PHASE # (if (1::nat) = 0 then [] else [C_PHASE, C_PHASE] @ [STOP]) @
                 [] @ S_PHASE # [] @ STOP # loads) idle_rstore_executor
              = rstore_start two_nodes 1 0 toy_params WAIT_C_PHASE loads s'"
      by blast
    have "rstore_start two_nodes 1 0 toy_params WAIT_C_PHASE
            [C_PHASE, C_PHASE, C_PHASE, STOP, S_PHASE, STOP, EXIT] idle_rstore_executor
          = Some (Inr (commit_transactions s'))"
      using a[of "[EXIT]"] unfolding rstore_start_exit by simp
    moreover from tr n have "trace s' = [COMMIT_TRANSACTIONS 0, STARTED_ADD, PROCESS_REQUEST,
        PROCESS_REQUEST, PROCESS_REQUEST, COMPLETE_ADD, COMMIT_TRANSACTIONS 0, STARTED_ADD,
        RUN_TRANSACTION S_PHASE 0, COMPLETE_ADD, PROCESS_REQUEST, COMPLETE_ADD]"
      by (simp add: t)
    ultimately show ?thesis by blast
  qed
qed

end
